theory Spec2Isabelle
  imports Main "HOL-Library.AList" "HOL-Library.Sublist"
begin

section \<open>Python values used by \<open>BratExperiment\<close>\<close>

text \<open>
  Exceptions become values. The source raises \<open>ValueError\<close> with a message in three
  places; a missing dictionary key raises \<open>KeyError\<close>; a failure of the blob store is
  \<open>StorageError\<close>.
\<close>

datatype error = ValueError string | KeyError string | StorageError string

text \<open>
  A Python \<open>dict\<close> keeps its keys in insertion order, and the allocation policy iterates
  \<open>units.keys()\<close> in that order, so a dict is an association list: \<open>d[k] = v\<close> is
  \<open>AList.update k v d\<close> (an existing key keeps its place, a new key goes last),
  \<open>k in d\<close> is membership in \<open>map fst d\<close>, \<open>d[k]\<close> is \<open>map_of d k\<close> with \<open>None\<close>
  for the \<open>KeyError\<close>.
\<close>

type_synonym ('k, 'v) dict = "('k \<times> 'v) list"

definition keys :: "('k, 'v) dict \<Rightarrow> 'k list" where
  "keys d = map fst d"

definition newline :: string where
  "newline = [CHR 0x0A]"

text \<open>\<open>str(n)\<close> for a non-negative integer: its decimal digits.\<close>

definition digit_char :: "nat \<Rightarrow> char" where
  "digit_char d = char_of (48 + d)"

fun str_nat :: "nat \<Rightarrow> string" where
  "str_nat n = (if n < 10 then [digit_char n] else str_nat (n div 10) @ [digit_char (n mod 10)])"

declare str_nat.simps [simp del]

text \<open>
  \<open>s.replace(old, new)\<close>: every non-overlapping occurrence of \<open>old\<close>, left to right.
  The first argument of \<open>replace_from\<close> counts the characters of a matched occurrence
  still to be skipped. For an empty \<open>old\<close> Python puts \<open>new\<close> before every character
  and at the end.
\<close>

fun replace_from :: "nat \<Rightarrow> string \<Rightarrow> string \<Rightarrow> string \<Rightarrow> string" where
  "replace_from k old new [] = []"
| "replace_from (Suc k) old new (c # cs) = replace_from k old new cs"
| "replace_from 0 old new (c # cs) =
     (if prefix old (c # cs) then new @ replace_from (length old - 1) old new cs
      else c # replace_from 0 old new cs)"

definition py_replace :: "string \<Rightarrow> string \<Rightarrow> string \<Rightarrow> string" where
  "py_replace s old new =
     (if old = [] then new @ concat (map (\<lambda>c. c # new) s) else replace_from 0 old new s)"

section \<open>The external collaborators\<close>

subsection \<open>The metadata store\<close>

text \<open>
  Modelled from the spec: \<open>S3BackedJsonDict\<close> (package \<open>skills_utils.s3\<close>) is not part
  of the sources. The spec (4.1) gives its contract: \<open>set\<close> changes the in-memory value
  only, \<open>save()\<close> flushes the in-memory value durably, and no key is durably written
  without a call of \<open>save()\<close>. \<open>storage\<close> is what this process sees, \<open>saved\<close> what a
  freshly constructed \<open>BratExperiment\<close> would load.
\<close>

record 'a S3BackedJsonDict =
  storage :: 'a
  saved :: 'a

definition save :: "'a S3BackedJsonDict \<Rightarrow> 'a S3BackedJsonDict" where
  "save d = d\<lparr>saved := storage d\<rparr>"

subsection \<open>The blob store\<close>

text \<open>
  Modelled from the spec: \<open>s3fs.S3FileSystem\<close> is an external library. The spec (6) names
  its interface: \<open>write(path, bytes)\<close>, \<open>list(path_prefix)\<close>, \<open>copy(src, dst)\<close>, and (7)
  a \<open>StorageError\<close> when the store is unavailable. \<open>objects\<close> maps keys to contents;
  \<open>copy_fails\<close> lists the source keys on which the store's \<open>copy\<close> raises, which stands
  for the store failing during a copy.
\<close>

record s3fs =
  objects :: "(string, string) dict"
  copy_fails :: "string list"

definition s3_write :: "string \<Rightarrow> string \<Rightarrow> s3fs \<Rightarrow> s3fs" where
  "s3_write key content fs = fs\<lparr>objects := AList.update key content (objects fs)\<rparr>"

definition s3_ls :: "s3fs \<Rightarrow> string \<Rightarrow> string list" where
  "s3_ls fs dir = filter (prefix (dir @ ''/'')) (keys (objects fs))"

definition s3_copy :: "string \<Rightarrow> string \<Rightarrow> s3fs \<Rightarrow> error + s3fs" where
  "s3_copy src dst fs =
     (if src \<in> set (copy_fails fs) then Inl (StorageError src)
      else case map_of (objects fs) src of
             None \<Rightarrow> Inl (StorageError src)
           | Some content \<Rightarrow> Inr (s3_write dst content fs))"

subsection \<open>Samples, postings and batches\<close>

text \<open>
  Modelled from the spec: \<open>Sample\<close> and \<open>JobPosting\<close> (other modules of the package)
  are not part of the sources. A sample has a base path, a name and, when iterated,
  yields its postings in order; a posting has an external identifier and a text (spec 3,
  Item).
\<close>

record posting =
  posting_id :: string
  posting_text :: string

record sample =
  base_path :: string
  name :: string
  postings :: "posting list"

text \<open>
  Modelled from the spec: \<open>Batch\<close> (package \<open>skills_utils.iteration\<close>) is not part of
  the sources. The spec (4.2): the input is consumed in original order and divided into
  batches of the given size; the last batch may be smaller and is never padded or merged.
  An empty input has no batch. For a limit below 1 the spec describes no batches; the
  model then leaves a non-empty input undivided.
\<close>

function chunk :: "nat \<Rightarrow> 'a list \<Rightarrow> 'a list list" where
  "chunk n xs = (if n = 0 \<or> xs = [] then [] else take n xs # chunk n (drop n xs))"
  by pat_completeness auto
termination
  by (relation "measure (\<lambda>(n, xs). length xs)") auto

declare chunk.simps [simp del]

definition Batch :: "'a list \<Rightarrow> int \<Rightarrow> 'a list list" where
  "Batch xs limit =
     (if xs = [] then [] else if limit < 1 then [xs] else chunk (nat limit) xs)"

section \<open>The experiment\<close>

text \<open>
  The keys of \<open>self.metadata\<close>; \<open>None\<close> is an absent key. Unit members are the pairs
  \<open>(posting_key, posting.id)\<close>.
\<close>

record metadata_dict =
  sample_base_path :: "string option"
  sample_name :: "string option"
  entities_with_shortcuts :: "(string \<times> string) list option"
  minimum_annotations_per_posting :: "int option"
  max_postings_per_allocation :: "int option"
  units :: "(string, (nat \<times> string) list) dict option"
  allocations :: "(string, string list) dict option"

record brat_experiment =
  experiment_name :: string
  brat_s3_path :: string
  metadata :: "metadata_dict S3BackedJsonDict"
  user_pw_store :: "(string, string) dict S3BackedJsonDict"
  s3 :: s3fs

definition empty_metadata :: metadata_dict where
  "empty_metadata = \<lparr>sample_base_path = None, sample_name = None,
     entities_with_shortcuts = None, minimum_annotations_per_posting = None,
     max_postings_per_allocation = None, units = None, allocations = None\<rparr>"

text \<open>\<open>__init__\<close> on a bucket that holds nothing for this experiment yet.\<close>

definition init :: "string \<Rightarrow> string \<Rightarrow> brat_experiment" where
  "init exp_name s3_path =
     \<lparr>experiment_name = exp_name, brat_s3_path = s3_path,
      metadata = \<lparr>storage = empty_metadata, saved = empty_metadata\<rparr>,
      user_pw_store = \<lparr>storage = [], saved = []\<rparr>,
      s3 = \<lparr>objects = [], copy_fails = []\<rparr>\<rparr>"

text \<open>Shorthands for the in-memory metadata and its replacement.\<close>

definition md :: "brat_experiment \<Rightarrow> metadata_dict" where
  "md e = storage (metadata e)"

definition set_md :: "metadata_dict \<Rightarrow> brat_experiment \<Rightarrow> brat_experiment" where
  "set_md m e = e\<lparr>metadata := (metadata e)\<lparr>storage := m\<rparr>\<rparr>"

subsection \<open>Paths\<close>

definition experiment_path :: "brat_experiment \<Rightarrow> string" where
  "experiment_path e = brat_s3_path e @ ''/'' @ experiment_name e"

definition brat_config_path :: "brat_experiment \<Rightarrow> string" where
  "brat_config_path e = experiment_path e @ ''/'' @ ''brat_config''"

definition data_path :: "brat_experiment \<Rightarrow> string" where
  "data_path e = brat_config_path e @ ''/'' @ ''data''"

definition unit_path :: "brat_experiment \<Rightarrow> string \<Rightarrow> string" where
  "unit_path e unit_name = data_path e @ ''/'' @ (''.'' @ unit_name)"

definition user_allocations_path :: "brat_experiment \<Rightarrow> string \<Rightarrow> string" where
  "user_allocations_path e user_name = data_path e @ ''/'' @ (''.'' @ user_name)"

definition allocation_path :: "brat_experiment \<Rightarrow> string \<Rightarrow> string \<Rightarrow> string" where
  "allocation_path e user_name unit_name = user_allocations_path e user_name @ ''/'' @ unit_name"

subsection \<open>\<open>start\<close>\<close>

text \<open>
  The inner loop of \<open>start\<close>, \<open>for posting_key, posting_string in enumerate(batch_postings)\<close>:
  the member \<open>(posting_key, posting.id)\<close> is appended to the unit's list, the text is
  written to \<open>unit_path/posting_key.txt\<close> and an empty annotation file beside it. The
  loop state is the \<open>units\<close> dict and the blob store.
\<close>

fun write_postings ::
  "string \<Rightarrow> string \<Rightarrow> nat \<Rightarrow> posting list \<Rightarrow>
   (string, (nat \<times> string) list) dict \<times> s3fs \<Rightarrow> (string, (nat \<times> string) list) dict \<times> s3fs"
where
  "write_postings dir unit_name posting_key [] st = st"
| "write_postings dir unit_name posting_key (p # ps) (us, fs) =
     (let outfilename = dir @ ''/'' @ str_nat posting_key
      in write_postings dir unit_name (Suc posting_key) ps
           (AList.map_entry unit_name (\<lambda>members. members @ [(posting_key, posting_id p)]) us,
            s3_write (outfilename @ ''.ann'') []
              (s3_write (outfilename @ ''.txt'') (posting_text p) fs)))"

text \<open>
  The outer loop, \<open>for unit_num, batch_postings in enumerate(Batch(...))\<close>: the unit is
  named \<open>unit_<unit_num>\<close> and starts as an empty list.
\<close>

definition unit_name_of :: "nat \<Rightarrow> string" where
  "unit_name_of unit_num = ''unit_'' @ str_nat unit_num"

fun write_units ::
  "brat_experiment \<Rightarrow> nat \<Rightarrow> posting list list \<Rightarrow>
   (string, (nat \<times> string) list) dict \<times> s3fs \<Rightarrow> (string, (nat \<times> string) list) dict \<times> s3fs"
where
  "write_units e unit_num [] st = st"
| "write_units e unit_num (batch_postings # rest) (us, fs) =
     write_units e (Suc unit_num) rest
       (write_postings (unit_path e (unit_name_of unit_num)) (unit_name_of unit_num) 0
          batch_postings (AList.update (unit_name_of unit_num) [] us, fs))"

text \<open>The three configuration files written after the units.\<close>

definition annotation_conf :: "(string \<times> string) list \<Rightarrow> string" where
  "annotation_conf ents =
     ''[entities]'' @ newline @ concat (map (\<lambda>(_, entity_name). entity_name @ newline) ents)
     @ ''[relations]'' @ newline @ newline @ ''# none defined''
     @ ''[attributes]'' @ newline @ newline @ ''# none defined''
     @ ''[events]'' @ newline @ newline @ ''# none defined''"

definition kb_shortcuts_conf :: "(string \<times> string) list \<Rightarrow> string" where
  "kb_shortcuts_conf ents =
     concat (map (\<lambda>(shortcut, entity_name). shortcut @ '' '' @ entity_name @ newline) ents)"

definition visual_conf :: "(string \<times> string) list \<Rightarrow> string" where
  "visual_conf ents =
     ''[labels]'' @ newline @ concat (map (\<lambda>(_, entity_name). entity_name @ newline) ents)"

text \<open>
  \<open>start\<close> contains no \<open>raise\<close> and no test of its arguments or of the present
  metadata: it sets the five configuration keys, replaces \<open>units\<close> by an empty dict,
  fills it, saves, and writes the configuration files. It returns \<open>None\<close>; the result
  type has an error side only so that "fails" can be stated.
\<close>

definition start ::
  "sample \<Rightarrow> (string \<times> string) list \<Rightarrow> int \<Rightarrow> int \<Rightarrow> brat_experiment \<Rightarrow>
   (error + unit) \<times> brat_experiment"
where
  "start smp ents min_annotations max_postings e =
     (let m = (md e)\<lparr>sample_base_path := Some (base_path smp),
                     sample_name := Some (name smp),
                     entities_with_shortcuts := Some ents,
                     minimum_annotations_per_posting := Some min_annotations,
                     max_postings_per_allocation := Some max_postings\<rparr>;
          (us, fs) = write_units e 0 (Batch (postings smp) max_postings) ([], s3 e);
          e1 = (set_md (m\<lparr>units := Some us\<rparr>) e)\<lparr>s3 := fs\<rparr>;
          e2 = e1\<lparr>metadata := save (metadata e1)\<rparr>;
          fs1 = s3_write (brat_config_path e @ ''/'' @ ''annotation.conf'') (annotation_conf ents) fs;
          fs2 = s3_write (brat_config_path e @ ''/'' @ ''kb_shortcuts.conf'') (kb_shortcuts_conf ents) fs1;
          fs3 = s3_write (brat_config_path e @ ''/'' @ ''visual.conf'') (visual_conf ents) fs2
      in (Inr (), e2\<lparr>s3 := fs3\<rparr>))"

subsection \<open>\<open>needs_allocation\<close>\<close>

text \<open>
  The number of users whose list contains the unit, compared with
  \<open>minimum_annotations_per_posting\<close>. The left operand is evaluated first, so a missing
  \<open>allocations\<close> key is the first \<open>KeyError\<close>.
\<close>

definition needs_allocation :: "brat_experiment \<Rightarrow> string \<Rightarrow> error + bool" where
  "needs_allocation e unit_name =
     (case allocations (md e) of
        None \<Rightarrow> Inl (KeyError ''allocations'')
      | Some al \<Rightarrow>
          (case minimum_annotations_per_posting (md e) of
             None \<Rightarrow> Inl (KeyError ''minimum_annotations_per_posting'')
           | Some k \<Rightarrow>
               Inr (int (length (filter (\<lambda>user_units. unit_name \<in> set user_units) (map snd al))) < k)))"

subsection \<open>\<open>add_allocation\<close>\<close>

definition unknown_user_error :: error where
  "unknown_user_error = ValueError ''Username not in user-password store. Please call add_user first''"

definition no_units_left_error :: error where
  "no_units_left_error = ValueError ''No units left to allocate to user!''"

definition duplicate_user_error :: "string \<Rightarrow> error" where
  "duplicate_user_error username = ValueError (''User '' @ username @ '' already created'')"

text \<open>"initialize allocations if there have been none yet".\<close>

definition init_allocations :: "string \<Rightarrow> brat_experiment \<Rightarrow> brat_experiment" where
  "init_allocations user_name e =
     (let al = (case allocations (md e) of None \<Rightarrow> [] | Some al \<Rightarrow> al);
          al' = (if user_name \<in> set (keys al) then al else AList.update user_name [] al)
      in set_md ((md e)\<lparr>allocations := Some al'\<rparr>) e)"

text \<open>
  The first generator: the first unit name, in the order of \<open>units.keys()\<close>, that is not
  in \<open>allocations[user_name]\<close> and for which \<open>needs_allocation\<close> holds. \<open>Inr None\<close> is
  the caught \<open>StopIteration\<close>; any other exception propagates.
\<close>

fun first_needing :: "brat_experiment \<Rightarrow> string \<Rightarrow> string list \<Rightarrow> error + string option" where
  "first_needing e user_name [] = Inr None"
| "first_needing e user_name (unit_name # rest) =
     (case allocations (md e) of
        None \<Rightarrow> Inl (KeyError ''allocations'')
      | Some al \<Rightarrow>
          (case map_of al user_name of
             None \<Rightarrow> Inl (KeyError user_name)
           | Some seen \<Rightarrow>
               if unit_name \<notin> set seen then
                 (case needs_allocation e unit_name of
                    Inl err \<Rightarrow> Inl err
                  | Inr b \<Rightarrow> if b then Inr (Some unit_name) else first_needing e user_name rest)
               else first_needing e user_name rest))"

text \<open>The second generator: the first unit name not in \<open>allocations[user_name]\<close>.\<close>

fun first_unseen :: "brat_experiment \<Rightarrow> string \<Rightarrow> string list \<Rightarrow> error + string option" where
  "first_unseen e user_name [] = Inr None"
| "first_unseen e user_name (unit_name # rest) =
     (case allocations (md e) of
        None \<Rightarrow> Inl (KeyError ''allocations'')
      | Some al \<Rightarrow>
          (case map_of al user_name of
             None \<Rightarrow> Inl (KeyError user_name)
           | Some seen \<Rightarrow>
               if unit_name \<notin> set seen then Inr (Some unit_name)
               else first_unseen e user_name rest))"

text \<open>\<open>not unit_to_allocate\<close>: true for \<open>None\<close> and for the empty string.\<close>

definition falsy :: "string option \<Rightarrow> bool" where
  "falsy x = (case x of None \<Rightarrow> True | Some s \<Rightarrow> s = [])"

text \<open>
  The choice of the unit, lines 180 to 205 of the source: \<open>self.metadata['units']\<close> is
  read when each generator is built, the second generator runs only when the first left
  \<open>unit_to_allocate\<close> falsy, and a falsy result after both raises.
\<close>

definition choose_unit :: "brat_experiment \<Rightarrow> string \<Rightarrow> error + string" where
  "choose_unit e user_name =
     (case units (md e) of
        None \<Rightarrow> Inl (KeyError ''units'')
      | Some us \<Rightarrow>
          (case first_needing e user_name (keys us) of
             Inl err \<Rightarrow> Inl err
           | Inr found \<Rightarrow>
               (case (if falsy found then first_unseen e user_name (keys us) else Inr found) of
                  Inl err \<Rightarrow> Inl err
                | Inr unit_to_allocate \<Rightarrow>
                    (case unit_to_allocate of
                       None \<Rightarrow> Inl no_units_left_error
                     | Some u \<Rightarrow> if u = [] then Inl no_units_left_error else Inr u))))"

text \<open>
  The copy loop over \<open>self.s3.ls(source_dir)\<close>. A failing copy stops the loop; the
  copies made before it stay in the store.
\<close>

fun copy_keys :: "string \<Rightarrow> string \<Rightarrow> string list \<Rightarrow> s3fs \<Rightarrow> (error + unit) \<times> s3fs" where
  "copy_keys source_dir dest_dir [] fs = (Inr (), fs)"
| "copy_keys source_dir dest_dir (source_key # rest) fs =
     (case s3_copy source_key (py_replace source_key source_dir dest_dir) fs of
        Inl err \<Rightarrow> (Inl err, fs)
      | Inr fs' \<Rightarrow> copy_keys source_dir dest_dir rest fs')"

text \<open>\<open>self.metadata['allocations'][user_name].append(unit_to_allocate)\<close>.\<close>

definition append_allocation :: "string \<Rightarrow> string \<Rightarrow> brat_experiment \<Rightarrow> brat_experiment" where
  "append_allocation user_name unit_name e =
     (case allocations (md e) of
        None \<Rightarrow> e
      | Some al \<Rightarrow>
          set_md ((md e)\<lparr>allocations := Some (AList.map_entry user_name (\<lambda>seen. seen @ [unit_name]) al)\<rparr>) e)"

text \<open>
  \<open>add_allocation\<close> in the order of the source: the membership test, the lazy
  initialisation, the choice, the copies, and last the append. Nothing in it calls
  \<open>self.metadata.save()\<close>. An exception leaves the state as it was when it was raised.
\<close>

definition add_allocation :: "string \<Rightarrow> brat_experiment \<Rightarrow> (error + string) \<times> brat_experiment" where
  "add_allocation user_name e =
     (if user_name \<notin> set (keys (storage (user_pw_store e))) then (Inl unknown_user_error, e)
      else
        let e1 = init_allocations user_name e
        in case choose_unit e1 user_name of
             Inl err \<Rightarrow> (Inl err, e1)
           | Inr unit_to_allocate \<Rightarrow>
               (let source_dir = unit_path e1 unit_to_allocate;
                    dest_dir = allocation_path e1 user_name unit_to_allocate
                in case copy_keys source_dir dest_dir (s3_ls (s3 e1) source_dir) (s3 e1) of
                     (Inl err, fs) \<Rightarrow> (Inl err, e1\<lparr>s3 := fs\<rparr>)
                   | (Inr _, fs) \<Rightarrow>
                       (Inr dest_dir, append_allocation user_name unit_to_allocate (e1\<lparr>s3 := fs\<rparr>))))"

subsection \<open>\<open>add_user\<close>\<close>

definition add_user :: "string \<Rightarrow> string \<Rightarrow> brat_experiment \<Rightarrow> (error + string) \<times> brat_experiment" where
  "add_user username password e =
     (if username \<in> set (keys (storage (user_pw_store e))) then (Inl (duplicate_user_error username), e)
      else
        let store = (user_pw_store e)\<lparr>storage := AList.update username password (storage (user_pw_store e))\<rparr>
        in add_allocation username (e\<lparr>user_pw_store := save store\<rparr>))"

subsection \<open>Observations used in the statements\<close>

text \<open>The allocation history of a user; a user without an entry has none.\<close>

definition history :: "brat_experiment \<Rightarrow> string \<Rightarrow> string list" where
  "history e user_name =
     (case allocations (md e) of
        None \<Rightarrow> []
      | Some al \<Rightarrow> (case map_of al user_name of None \<Rightarrow> [] | Some seen \<Rightarrow> seen))"

definition unit_names :: "brat_experiment \<Rightarrow> string list" where
  "unit_names e = (case units (md e) of None \<Rightarrow> [] | Some us \<Rightarrow> keys us)"

definition registered :: "brat_experiment \<Rightarrow> string \<Rightarrow> bool" where
  "registered e user_name = (user_name \<in> set (keys (storage (user_pw_store e))))"

subsection \<open>The units that \<open>start\<close> records\<close>

text \<open>
  The member list of a batch numbered from \<open>k\<close>, and the \<open>units\<close> entries of a list
  of batches numbered from \<open>n\<close>, as the two \<open>enumerate\<close> loops of \<open>start\<close> build
  them; \<open>start_units\<close> below proves that they are what the loops produce.
\<close>

definition members_of :: "nat \<Rightarrow> posting list \<Rightarrow> (nat \<times> string) list" where
  "members_of k ps = map (\<lambda>(i, p). (i, posting_id p)) (List.enumerate k ps)"

definition units_of :: "nat \<Rightarrow> posting list list \<Rightarrow> (string, (nat \<times> string) list) dict" where
  "units_of n bs = map (\<lambda>(i, b). (unit_name_of i, members_of 0 b)) (List.enumerate n bs)"

subsection \<open>Sequences of calls\<close>

text \<open>
  A caller that goes on after an exception: each call runs on the state the previous one
  left, whatever it returned.
\<close>

datatype call = Add_user string string | Add_allocation string

fun run_calls :: "call list \<Rightarrow> brat_experiment \<Rightarrow> brat_experiment" where
  "run_calls [] e = e"
| "run_calls (Add_user username password # cs) e = run_calls cs (snd (add_user username password e))"
| "run_calls (Add_allocation user_name # cs) e = run_calls cs (snd (add_allocation user_name e))"

text \<open>No list of \<open>allocations\<close> holds a unit name twice.\<close>

definition no_duplicates :: "brat_experiment \<Rightarrow> bool" where
  "no_duplicates e =
     (case allocations (md e) of None \<Rightarrow> True | Some al \<Rightarrow> list_all (\<lambda>seen. distinct seen) (map snd al))"

text \<open>Every key of \<open>allocations\<close> is a key of the user-password store.\<close>

definition allocated_users_registered :: "brat_experiment \<Rightarrow> bool" where
  "allocated_users_registered e =
     (case allocations (md e) of
        None \<Rightarrow> True
      | Some al \<Rightarrow> list_all (\<lambda>user_name. user_name \<in> set (keys (storage (user_pw_store e)))) (keys al))"

text \<open>\<open>allocations\<close> is a dict: no key occurs twice.\<close>

definition allocations_is_dict :: "brat_experiment \<Rightarrow> bool" where
  "allocations_is_dict e =
     (case allocations (md e) of None \<Rightarrow> True | Some al \<Rightarrow> distinct (keys al))"

section \<open>The policy in the words of the specification\<close>

text \<open>
  Coverage of a unit: the number of workers whose allocation list contains it (each
  worker is one key of \<open>allocations\<close>). \<open>needs_more_coverage\<close> is true iff the coverage
  is strictly below the configured minimum.
\<close>

definition coverage :: "brat_experiment \<Rightarrow> string \<Rightarrow> nat" where
  "coverage e unit_name =
     (case allocations (md e) of
        None \<Rightarrow> 0
      | Some al \<Rightarrow> length (filter (\<lambda>w. unit_name \<in> set (history e w)) (keys al)))"

definition needs_more_coverage :: "brat_experiment \<Rightarrow> string \<Rightarrow> bool" where
  "needs_more_coverage e unit_name =
     (case minimum_annotations_per_posting (md e) of
        None \<Rightarrow> False
      | Some k \<Rightarrow> int (coverage e unit_name) < k)"

text \<open>
  The selection policy of \<open>allocate_next\<close> (spec 4.3): among the units not in the
  worker's history, in creation order, the first that needs more coverage; if there is
  none, the first not in the history; if there is none either, the worker is exhausted.
\<close>

definition spec_allocate_next :: "brat_experiment \<Rightarrow> string \<Rightarrow> error + string" where
  "spec_allocate_next e worker =
     (let novel = filter (\<lambda>u. u \<notin> set (history e worker)) (unit_names e)
      in case find (needs_more_coverage e) novel of
           Some u \<Rightarrow> Inr u
         | None \<Rightarrow> (case novel of u # _ \<Rightarrow> Inr u | [] \<Rightarrow> Inl no_units_left_error))"

section \<open>Example states\<close>

text \<open>
  Three postings in units of two, coverage target two; then a user \<open>w\<close> whose password
  was stored and saved as the repository's test does; then the same state on a store
  whose copy of the first file of unit 0 fails.
\<close>

definition example_sample :: sample where
  "example_sample = \<lparr>base_path = ''s'', name = ''n'',
     postings = [\<lparr>posting_id = ''a'', posting_text = ''A''\<rparr>,
                 \<lparr>posting_id = ''b'', posting_text = ''B''\<rparr>,
                 \<lparr>posting_id = ''c'', posting_text = ''C''\<rparr>]\<rparr>"

definition example_started :: brat_experiment where
  "example_started = snd (start example_sample [(''k'', ''E'')] 2 2 (init ''x'' ''b''))"

definition example_registered :: brat_experiment where
  "example_registered =
     example_started\<lparr>user_pw_store :=
       save ((user_pw_store example_started)\<lparr>storage := AList.update ''w'' ''p'' (storage (user_pw_store example_started))\<rparr>)\<rparr>"

definition example_broken :: brat_experiment where
  "example_broken =
     example_registered\<lparr>s3 := (s3 example_registered)\<lparr>copy_fails := [''b/x/brat_config/data/.unit_0/0.txt'']\<rparr>\<rparr>"

definition example_other_sample :: sample where
  "example_other_sample = \<lparr>base_path = ''t'', name = ''m'',
     postings = [\<lparr>posting_id = ''z'', posting_text = ''Z''\<rparr>]\<rparr>"

section \<open>Basic facts about the model\<close>

lemma md_set_md [simp]: "md (set_md m e) = m"
  by (simp add: md_def set_md_def)

lemma set_md_fields [simp]:
  "s3 (set_md m e) = s3 e"
  "user_pw_store (set_md m e) = user_pw_store e"
  "experiment_name (set_md m e) = experiment_name e"
  "brat_s3_path (set_md m e) = brat_s3_path e"
  "saved (metadata (set_md m e)) = saved (metadata e)"
  by (simp_all add: set_md_def)

lemma md_s3_update [simp]: "md (e\<lparr>s3 := fs\<rparr>) = md e"
  by (simp add: md_def)

lemma md_pw_update [simp]: "md (e\<lparr>user_pw_store := st\<rparr>) = md e"
  by (simp add: md_def)

lemma history_s3_update [simp]: "history (e\<lparr>s3 := fs\<rparr>) w = history e w"
  by (simp add: history_def)

lemma history_pw_update [simp]: "history (e\<lparr>user_pw_store := st\<rparr>) w = history e w"
  by (simp add: history_def)

lemma map_of_not_key: "k \<notin> fst ` set al \<Longrightarrow> map_of al k = None"
  by (simp add: map_of_eq_None_iff)

lemma map_of_key: "k \<in> fst ` set al \<Longrightarrow> \<exists>v. map_of al k = Some v"
  by (cases "map_of al k") (simp_all add: map_of_eq_None_iff)

lemma init_allocations_md:
  "\<exists>al. allocations (md (init_allocations w e)) = Some al \<and> map_of al w = Some (history e w)"
proof (cases "allocations (md e)")
  case None
  then show ?thesis by (simp add: init_allocations_def Let_def history_def keys_def)
next
  case (Some al)
  show ?thesis
  proof (cases "w \<in> fst ` set al")
    case True
    then obtain h where "map_of al w = Some h" using map_of_key by fastforce
    with Some True show ?thesis
      by (simp add: init_allocations_def Let_def history_def keys_def)
  next
    case False
    with Some show ?thesis
      by (simp add: init_allocations_def Let_def history_def keys_def update_conv' map_of_not_key)
  qed
qed

lemma init_allocations_keys:
  "\<exists>al'. allocations (md (init_allocations w e)) = Some al' \<and>
     keys al' = (case allocations (md e) of
                   None \<Rightarrow> [w]
                 | Some al \<Rightarrow> if w \<in> set (keys al) then keys al else keys al @ [w])"
  by (simp add: init_allocations_def Let_def keys_def update_keys split: option.splits)

lemma history_not_key:
  "allocations (md e) = Some al \<Longrightarrow> w \<notin> set (keys al) \<Longrightarrow> history e w = []"
  by (simp add: history_def keys_def map_of_not_key)

lemma init_allocations_history [simp]: "history (init_allocations w e) w' = history e w'"
  by (auto simp: init_allocations_def Let_def history_def keys_def update_conv'
      split: option.splits dest: map_of_not_key)

lemma init_allocations_fields [simp]:
  "units (md (init_allocations w e)) = units (md e)"
  "minimum_annotations_per_posting (md (init_allocations w e)) = minimum_annotations_per_posting (md e)"
  "s3 (init_allocations w e) = s3 e"
  "user_pw_store (init_allocations w e) = user_pw_store e"
  "experiment_name (init_allocations w e) = experiment_name e"
  "brat_s3_path (init_allocations w e) = brat_s3_path e"
  "saved (metadata (init_allocations w e)) = saved (metadata e)"
  by (simp_all add: init_allocations_def Let_def)

lemma count_values_keys:
  "distinct (map fst al) \<Longrightarrow>
   length (filter (\<lambda>h. u \<in> set h) (map snd al)) =
   length (filter (\<lambda>w. u \<in> set (case map_of al w of None \<Rightarrow> [] | Some h \<Rightarrow> h)) (map fst al))"
proof (induction al)
  case Nil
  then show ?case by simp
next
  case (Cons p al)
  obtain w h where p: "p = (w, h)" by (cases p)
  from Cons.prems p have fresh: "w \<notin> fst ` set al" and d: "distinct (map fst al)" by auto
  have "filter (\<lambda>w'. u \<in> set (case map_of (p # al) w' of None \<Rightarrow> [] | Some h \<Rightarrow> h)) (map fst al)
      = filter (\<lambda>w'. u \<in> set (case map_of al w' of None \<Rightarrow> [] | Some h \<Rightarrow> h)) (map fst al)"
    using fresh p by (intro filter_cong) auto
  with Cons.IH [OF d] p show ?case by simp
qed

lemma needs_allocation_spec:
  assumes "allocations (md e) = Some al" "distinct (keys al)"
    "minimum_annotations_per_posting (md e) = Some k"
  shows "needs_allocation e u = Inr (needs_more_coverage e u)"
  using assms count_values_keys [of al u]
  by (simp add: needs_allocation_def needs_more_coverage_def coverage_def history_def keys_def)

lemma init_allocations_is_dict:
  "allocations_is_dict e \<Longrightarrow> allocations_is_dict (init_allocations w e)"
  by (auto simp: allocations_is_dict_def init_allocations_def Let_def keys_def distinct_update
      split: option.splits)

lemma init_allocations_coverage [simp]: "coverage (init_allocations w e) u = coverage e u"
proof -
  obtain al' where al': "allocations (md (init_allocations w e)) = Some al'"
    and ks: "keys al' = (case allocations (md e) of
                   None \<Rightarrow> [w]
                 | Some al \<Rightarrow> if w \<in> set (keys al) then keys al else keys al @ [w])"
    using init_allocations_keys by blast
  show ?thesis
  proof (cases "allocations (md e)")
    case None
    then have "history e w = []" by (simp add: history_def)
    with None al' ks show ?thesis by (simp add: coverage_def)
  next
    case (Some al)
    then show ?thesis
      using al' ks history_not_key [OF Some, of w] by (auto simp: coverage_def)
  qed
qed

lemma init_allocations_needs [simp]:
  "needs_more_coverage (init_allocations w e) u = needs_more_coverage e u"
  by (simp add: needs_more_coverage_def split: option.splits)


lemma find_filter_conj: "find P (filter Q xs) = find (\<lambda>x. Q x \<and> P x) xs"
  by (induction xs) auto

lemma find_as_filter: "find P xs = (case filter P xs of [] \<Rightarrow> None | x # _ \<Rightarrow> Some x)"
  by (induction xs) auto

lemma find_Some_mem: "find P xs = Some x \<Longrightarrow> x \<in> set xs \<and> P x"
  by (induction xs) (auto split: if_splits)

lemma first_needing_find:
  assumes "allocations (md e) = Some al" "map_of al w = Some h" "distinct (keys al)"
    "minimum_annotations_per_posting (md e) = Some k"
  shows "first_needing e w names = Inr (find (\<lambda>u. u \<notin> set h \<and> needs_more_coverage e u) names)"
  using assms by (induction names) (simp_all add: needs_allocation_spec)

lemma first_unseen_find:
  assumes "allocations (md e) = Some al" "map_of al w = Some h"
  shows "first_unseen e w names = Inr (find (\<lambda>u. u \<notin> set h) names)"
  using assms by (induction names) simp_all

lemma first_needing_novel:
  "first_needing e w names = Inr (Some u) \<Longrightarrow> u \<notin> set (history e w) \<and> u \<in> set names"
  by (induction names) (auto simp: history_def split: option.splits if_splits sum.splits)

lemma first_unseen_novel:
  "first_unseen e w names = Inr (Some u) \<Longrightarrow> u \<notin> set (history e w) \<and> u \<in> set names"
  by (induction names) (auto simp: history_def split: option.splits if_splits)

lemma choose_unit_novel:
  assumes "choose_unit e w = Inr u"
  shows "u \<notin> set (history e w) \<and> u \<in> set (unit_names e) \<and> u \<noteq> []"
  using assms first_needing_novel [of e w] first_unseen_novel [of e w]
  by (auto simp: choose_unit_def unit_names_def falsy_def split: option.splits sum.splits if_splits)

lemma choose_unit_spec:
  assumes al: "allocations (md e) = Some al" "map_of al w = Some h" "distinct (keys al)"
    and k: "minimum_annotations_per_posting (md e) = Some k"
    and us: "units (md e) = Some us" "[] \<notin> set (keys us)"
  shows "choose_unit e w = spec_allocate_next e w"
proof -
  have h: "history e w = h" using al by (simp add: history_def)
  let ?novel = "filter (\<lambda>u. u \<notin> set h) (keys us)"
  have t1: "first_needing e w (keys us) = Inr (find (needs_more_coverage e) ?novel)"
    using first_needing_find [OF al k] by (simp add: find_filter_conj)
  have t2: "first_unseen e w (keys us) = Inr (case ?novel of [] \<Rightarrow> None | x # _ \<Rightarrow> Some x)"
    using first_unseen_find [OF al(1,2)] by (simp add: find_as_filter)
  have ne: "x \<in> set ?novel \<Longrightarrow> x \<noteq> []" for x using us(2) by auto
  show ?thesis
  proof (cases "find (needs_more_coverage e) ?novel")
    case None
    show ?thesis
    proof (cases ?novel)
      case Nil
      with None t1 t2 us h show ?thesis
        by (simp add: choose_unit_def spec_allocate_next_def unit_names_def falsy_def)
    next
      case (Cons x xs)
      then have "x \<noteq> []" using ne [of x] by simp
      with Cons None t1 t2 us h show ?thesis
        by (simp add: choose_unit_def spec_allocate_next_def unit_names_def falsy_def)
    qed
  next
    case (Some x)
    then have "x \<noteq> []" using ne [of x] find_Some_mem [of "needs_more_coverage e" ?novel x] by simp
    with Some t1 us h show ?thesis
      by (simp add: choose_unit_def spec_allocate_next_def unit_names_def falsy_def)
  qed
qed

lemma spec_allocate_next_init [simp]:
  "spec_allocate_next (init_allocations w e) w' = spec_allocate_next e w'"
  by (simp add: spec_allocate_next_def unit_names_def cong: find_cong)

lemma choose_unit_init_spec:
  assumes "allocations_is_dict e" "minimum_annotations_per_posting (md e) = Some k"
    "units (md e) = Some us" "[] \<notin> set (keys us)"
  shows "choose_unit (init_allocations w e) w = spec_allocate_next e w"
proof -
  obtain al where al: "allocations (md (init_allocations w e)) = Some al"
    "map_of al w = Some (history e w)"
    using init_allocations_md by blast
  have d: "distinct (keys al)"
    using init_allocations_is_dict [OF assms(1), of w] al(1) by (simp add: allocations_is_dict_def)
  show ?thesis
    using choose_unit_spec [OF al d, of k us] assms by simp
qed

lemma s3_write_fields [simp]:
  "copy_fails (s3_write k c fs) = copy_fails fs"
  "set (keys (objects (s3_write k c fs))) = insert k (set (keys (objects fs)))"
  by (simp_all add: s3_write_def keys_def dom_update)

lemma s3_copy_ok:
  assumes "src \<in> set (keys (objects fs))" "src \<notin> set (copy_fails fs)"
  shows "\<exists>c. map_of (objects fs) src = Some c \<and> s3_copy src dst fs = Inr (s3_write dst c fs)"
  using assms map_of_key [of src "objects fs"] by (auto simp: s3_copy_def keys_def)

lemma copy_keys_ok:
  assumes "set ks \<subseteq> set (keys (objects fs))" "set ks \<inter> set (copy_fails fs) = {}"
  shows "\<exists>fs'. copy_keys src dst ks fs = (Inr (), fs')"
  using assms
proof (induction ks arbitrary: fs)
  case Nil
  then show ?case by simp
next
  case (Cons k ks)
  from Cons.prems obtain c where
    c: "s3_copy k (py_replace k src dst) fs = Inr (s3_write (py_replace k src dst) c fs)"
    using s3_copy_ok [of k fs "py_replace k src dst"] by auto
  have "\<exists>fs'. copy_keys src dst ks (s3_write (py_replace k src dst) c fs) = (Inr (), fs')"
    using Cons.prems by (intro Cons.IH) auto
  with c show ?case by simp
qed

lemma s3_ls_keys: "set (s3_ls fs dir) \<subseteq> set (keys (objects fs))"
  by (auto simp: s3_ls_def)

lemma copy_keys_ls_ok:
  "copy_fails fs = [] \<Longrightarrow> \<exists>fs'. copy_keys src dst (s3_ls fs dir) fs = (Inr (), fs')"
  using copy_keys_ok [OF s3_ls_keys, of fs dir src dst] by simp





lemma append_allocation_fields [simp]:
  "units (md (append_allocation w u e)) = units (md e)"
  "minimum_annotations_per_posting (md (append_allocation w u e)) = minimum_annotations_per_posting (md e)"
  "s3 (append_allocation w u e) = s3 e"
  "user_pw_store (append_allocation w u e) = user_pw_store e"
  "experiment_name (append_allocation w u e) = experiment_name e"
  "brat_s3_path (append_allocation w u e) = brat_s3_path e"
  "saved (metadata (append_allocation w u e)) = saved (metadata e)"
  by (simp_all add: append_allocation_def split: option.splits)

lemma append_allocation_history:
  assumes "allocations (md e) = Some al" "map_of al w = Some h"
  shows "history (append_allocation w u e) w' = (if w' = w then h @ [u] else history e w')"
  using assms by (simp add: append_allocation_def history_def map_of_map_entry)

lemma add_allocation_unregistered:
  "\<not> registered e w \<Longrightarrow> add_allocation w e = (Inl unknown_user_error, e)"
  by (simp add: add_allocation_def registered_def)

lemmas path_defs = unit_path_def allocation_path_def user_allocations_path_def data_path_def
  brat_config_path_def experiment_path_def

lemma paths_init_allocations [simp]:
  "unit_path (init_allocations w e) u = unit_path e u"
  "allocation_path (init_allocations w e) w' u = allocation_path e w' u"
  by (simp_all add: path_defs)

lemma paths_pw_update [simp]:
  "unit_path (e\<lparr>user_pw_store := st\<rparr>) u = unit_path e u"
  "allocation_path (e\<lparr>user_pw_store := st\<rparr>) w' u = allocation_path e w' u"
  by (simp_all add: path_defs)

lemma add_allocation_registered:
  assumes "registered e w"
  shows "add_allocation w e =
     (case choose_unit (init_allocations w e) w of
        Inl err \<Rightarrow> (Inl err, init_allocations w e)
      | Inr u \<Rightarrow>
          (case copy_keys (unit_path e u) (allocation_path e w u) (s3_ls (s3 e) (unit_path e u)) (s3 e) of
             (Inl err, fs) \<Rightarrow> (Inl err, (init_allocations w e)\<lparr>s3 := fs\<rparr>)
           | (Inr _, fs) \<Rightarrow>
               (Inr (allocation_path e w u), append_allocation w u ((init_allocations w e)\<lparr>s3 := fs\<rparr>))))"
  using assms by (simp add: add_allocation_def registered_def Let_def split: sum.splits prod.splits)

lemma add_allocation_Inr:
  assumes "add_allocation w e = (Inr p, e')"
  shows "\<exists>u fs. registered e w \<and> choose_unit (init_allocations w e) w = Inr u
           \<and> p = allocation_path e w u
           \<and> copy_keys (unit_path e u) p (s3_ls (s3 e) (unit_path e u)) (s3 e) = (Inr (), fs)
           \<and> e' = append_allocation w u ((init_allocations w e)\<lparr>s3 := fs\<rparr>)"
proof -
  have r: "registered e w"
    using assms add_allocation_unregistered [of e w] by auto
  from assms show ?thesis
    unfolding add_allocation_registered [OF r]
    by (auto simp: r split: sum.splits prod.splits)
qed

lemma add_allocation_Inl:
  assumes "add_allocation w e = (Inl err, e')"
  shows "e' = e \<or> (\<exists>fs. e' = (init_allocations w e)\<lparr>s3 := fs\<rparr>)"
proof (cases "registered e w")
  case False
  with assms show ?thesis by (simp add: add_allocation_unregistered)
next
  case True
  from assms consider (a) "e' = init_allocations w e"
    | (b) "\<exists>fs. e' = (init_allocations w e)\<lparr>s3 := fs\<rparr>"
    unfolding add_allocation_registered [OF True]
    by (auto split: sum.splits prod.splits)
  then show ?thesis
  proof cases
    case a
    then have "e' = (init_allocations w e)\<lparr>s3 := s3 (init_allocations w e)\<rparr>" by simp
    then show ?thesis by blast
  next
    case b
    then show ?thesis by blast
  qed
qed

lemma add_allocation_Inr_history:
  assumes "add_allocation w e = (Inr p, e')"
  shows "\<exists>u. p = allocation_path e w u \<and> u \<notin> set (history e w) \<and> u \<in> set (unit_names e)
           \<and> history e' w = history e w @ [u]
           \<and> (\<forall>w'. w' \<noteq> w \<longrightarrow> history e' w' = history e w')"
proof -
  from add_allocation_Inr [OF assms] obtain u fs where
    u: "choose_unit (init_allocations w e) w = Inr u" "p = allocation_path e w u"
    and e': "e' = append_allocation w u ((init_allocations w e)\<lparr>s3 := fs\<rparr>)"
    by blast
  obtain al where al: "allocations (md (init_allocations w e)) = Some al"
    "map_of al w = Some (history e w)"
    using init_allocations_md by blast
  have novel: "u \<notin> set (history e w) \<and> u \<in> set (unit_names e)"
    using choose_unit_novel [OF u(1)] by (simp add: unit_names_def)
  have "history e' w' = (if w' = w then history e w @ [u] else history e w')" for w'
    using append_allocation_history [of "(init_allocations w e)\<lparr>s3 := fs\<rparr>" al w "history e w" u w'] al
    by (simp add: e')
  with u novel show ?thesis by auto
qed

lemma add_allocation_Inl_history:
  assumes "add_allocation w e = (Inl err, e')"
  shows "history e' w' = history e w'"
  using add_allocation_Inl [OF assms] by auto

lemma add_allocation_saved:
  "saved (metadata (snd (add_allocation w e))) = saved (metadata e)"
proof (cases "add_allocation w e")
  case (Pair r e')
  show ?thesis
  proof (cases r)
    case (Inl err)
    with Pair add_allocation_Inl [of w e err e'] show ?thesis by auto
  next
    case (Inr p)
    with Pair add_allocation_Inr [of w e p e'] show ?thesis by auto
  qed
qed

lemma add_allocation_success:
  assumes "registered e w" "choose_unit (init_allocations w e) w = Inr u" "copy_fails (s3 e) = []"
  shows "\<exists>fs. add_allocation w e =
           (Inr (allocation_path e w u), append_allocation w u ((init_allocations w e)\<lparr>s3 := fs\<rparr>))"
proof -
  obtain fs where "copy_keys (unit_path e u) (allocation_path e w u) (s3_ls (s3 e) (unit_path e u)) (s3 e)
      = (Inr (), fs)"
    using copy_keys_ls_ok [OF assms(3)] by blast
  then have "add_allocation w e =
      (Inr (allocation_path e w u), append_allocation w u ((init_allocations w e)\<lparr>s3 := fs\<rparr>))"
    using assms(2) by (simp add: add_allocation_registered [OF assms(1)])
  then show ?thesis ..
qed


lemma add_allocation_choice_error:
  assumes "registered e w" "choose_unit (init_allocations w e) w = Inl err"
  shows "add_allocation w e = (Inl err, init_allocations w e)"
  using assms(2) by (simp add: add_allocation_registered [OF assms(1)])

lemma spec_allocate_next_exhausted:
  "set (unit_names e) \<subseteq> set (history e w) \<Longrightarrow> spec_allocate_next e w = Inl no_units_left_error"
proof -
  assume "set (unit_names e) \<subseteq> set (history e w)"
  then have "filter (\<lambda>u. u \<notin> set (history e w)) (unit_names e) = []"
    by (auto simp: filter_empty_conv)
  then show ?thesis by (simp add: spec_allocate_next_def)
qed

lemma no_duplicates_s3_update [simp]: "no_duplicates (e\<lparr>s3 := fs\<rparr>) = no_duplicates e"
  by (simp add: no_duplicates_def)

lemma no_duplicates_pw_update [simp]: "no_duplicates (e\<lparr>user_pw_store := st\<rparr>) = no_duplicates e"
  by (simp add: no_duplicates_def)

lemma list_all_update_snd:
  "list_all P (map snd al) \<Longrightarrow> P v \<Longrightarrow> list_all P (map snd (AList.update k v al))"
  by (induction al) auto

lemma list_all_map_entry_snd:
  "list_all P (map snd al) \<Longrightarrow> (\<And>h. map_of al k = Some h \<Longrightarrow> P (f h))
   \<Longrightarrow> list_all P (map snd (AList.map_entry k f al))"
  by (induction al) auto

lemma no_duplicates_init_allocations:
  "no_duplicates e \<Longrightarrow> no_duplicates (init_allocations w e)"
  by (auto simp: no_duplicates_def init_allocations_def Let_def list_all_update_snd
      split: option.splits)

lemma no_duplicates_append_allocation:
  assumes "no_duplicates e" "distinct (history e w)" "u \<notin> set (history e w)"
  shows "no_duplicates (append_allocation w u e)"
proof (cases "allocations (md e)")
  case None
  with assms show ?thesis by (simp add: append_allocation_def)
next
  case (Some al)
  have "list_all distinct (map snd (AList.map_entry w (\<lambda>seen. seen @ [u]) al))"
  proof (rule list_all_map_entry_snd)
    show "list_all distinct (map snd al)" using assms(1) Some by (simp add: no_duplicates_def)
    fix h assume "map_of al w = Some h"
    with Some have "history e w = h" by (simp add: history_def)
    with assms show "distinct (h @ [u])" by auto
  qed
  with Some show ?thesis by (simp add: append_allocation_def no_duplicates_def)
qed

lemma no_duplicates_history: "no_duplicates e \<Longrightarrow> distinct (history e w)"
proof -
  assume nd: "no_duplicates e"
  show ?thesis
  proof (cases "allocations (md e)")
    case None
    then show ?thesis by (simp add: history_def)
  next
    case (Some al)
    show ?thesis
    proof (cases "map_of al w")
      case None
      with Some show ?thesis by (simp add: history_def)
    next
      case (Some h)
      then have "h \<in> snd ` set al" by (force dest: map_of_SomeD)
      with nd \<open>allocations (md e) = Some al\<close> have "distinct h"
        by (auto simp: no_duplicates_def list_all_iff)
      with Some \<open>allocations (md e) = Some al\<close> show ?thesis by (simp add: history_def)
    qed
  qed
qed

lemma no_duplicates_add_allocation:
  assumes "no_duplicates e"
  shows "no_duplicates (snd (add_allocation w e))"
proof (cases "add_allocation w e")
  case (Pair r e')
  show ?thesis
  proof (cases r)
    case (Inl err)
    with Pair add_allocation_Inl [of w e err e'] assms no_duplicates_init_allocations [OF assms, of w]
    show ?thesis by auto
  next
    case (Inr p)
    with Pair add_allocation_Inr [of w e p e'] obtain u fs where
      u: "choose_unit (init_allocations w e) w = Inr u"
      and e': "e' = append_allocation w u ((init_allocations w e)\<lparr>s3 := fs\<rparr>)"
      by blast
    let ?e1 = "(init_allocations w e)\<lparr>s3 := fs\<rparr>"
    have nd: "no_duplicates ?e1" using no_duplicates_init_allocations [OF assms, of w] by simp
    have novel: "u \<notin> set (history ?e1 w)" using choose_unit_novel [OF u] by simp
    have "no_duplicates (append_allocation w u ?e1)"
      using nd no_duplicates_history [OF nd, of w] novel by (rule no_duplicates_append_allocation)
    with Pair e' show ?thesis by simp
  qed
qed

lemma no_duplicates_add_user:
  assumes "no_duplicates e"
  shows "no_duplicates (snd (add_user w p e))"
  using assms no_duplicates_add_allocation [of "e\<lparr>user_pw_store := st\<rparr>" w for st]
  by (simp add: add_user_def Let_def)

lemma no_duplicates_run_calls:
  "no_duplicates e \<Longrightarrow> no_duplicates (run_calls cs e)"
  by (induction cs e rule: run_calls.induct)
    (simp_all add: no_duplicates_add_user no_duplicates_add_allocation)

lemma add_allocation_user_pw_store:
  "user_pw_store (snd (add_allocation w e)) = user_pw_store e"
proof (cases "add_allocation w e")
  case (Pair r e')
  show ?thesis
  proof (cases r)
    case (Inl err)
    with Pair add_allocation_Inl [of w e err e'] show ?thesis by auto
  next
    case (Inr p)
    with Pair add_allocation_Inr [of w e p e'] show ?thesis by auto
  qed
qed

lemma first_needing_total:
  assumes "allocations (md e) = Some al" "map_of al w = Some h"
    "minimum_annotations_per_posting (md e) = Some k"
  shows "\<exists>r. first_needing e w names = Inr r"
  using assms by (induction names) (simp_all add: needs_allocation_def)

lemma choose_unit_succeeds:
  assumes al: "allocations (md e) = Some al" "map_of al w = Some h"
    and k: "minimum_annotations_per_posting (md e) = Some k"
    and us: "units (md e) = Some us" "[] \<notin> set (keys us)"
    and novel: "\<exists>u \<in> set (keys us). u \<notin> set h"
  shows "\<exists>u \<in> set (keys us). choose_unit e w = Inr u"
proof -
  obtain r where r: "first_needing e w (keys us) = Inr r"
    using first_needing_total [OF al k] by blast
  show ?thesis
  proof (cases r)
    case None
    from novel obtain u' where "find (\<lambda>u. u \<notin> set h) (keys us) = Some u'"
      by (cases "find (\<lambda>u. u \<notin> set h) (keys us)") (auto simp: find_None_iff)
    moreover from this have "u' \<in> set (keys us)" using find_Some_mem by fastforce
    moreover from this us(2) have "u' \<noteq> []" by auto
    ultimately show ?thesis
      using None r us(1) first_unseen_find [OF al, of "keys us"]
      by (simp add: choose_unit_def falsy_def)
  next
    case (Some u)
    with r have "u \<in> set (keys us)" using first_needing_novel by blast
    moreover from this us(2) have "u \<noteq> []" by auto
    ultimately show ?thesis
      using Some r us(1) by (simp add: choose_unit_def falsy_def)
  qed
qed

lemma unregistered_history:
  assumes "allocated_users_registered e" "\<not> registered e w"
  shows "history e w = []"
proof (cases "allocations (md e)")
  case None
  then show ?thesis by (simp add: history_def)
next
  case (Some al)
  with assms have "w \<notin> set (keys al)"
    by (auto simp: allocated_users_registered_def registered_def list_all_iff)
  with Some show ?thesis by (rule history_not_key)
qed

lemma add_user_registered:
  "registered e w \<Longrightarrow> add_user w p e = (Inl (duplicate_user_error w), e)"
  by (simp add: add_user_def registered_def)

lemma add_user_unregistered:
  "\<not> registered e w \<Longrightarrow>
   add_user w p e = add_allocation w
     (e\<lparr>user_pw_store := save ((user_pw_store e)\<lparr>storage := AList.update w p (storage (user_pw_store e))\<rparr>)\<rparr>)"
  by (simp add: add_user_def registered_def Let_def)

lemma registered_after_store:
  "registered (e\<lparr>user_pw_store := save ((user_pw_store e)\<lparr>storage := AList.update w p (storage (user_pw_store e))\<rparr>)\<rparr>) w"
  by (simp add: registered_def save_def keys_def dom_update)

lemma add_allocation_Inr_s3:
  assumes "add_allocation w e = (Inr p, e')"
  shows "\<exists>u. p = allocation_path e w u
           \<and> copy_keys (unit_path e u) p (s3_ls (s3 e) (unit_path e u)) (s3 e) = (Inr (), s3 e')"
  using add_allocation_Inr [OF assms] by auto

subsection \<open>Unit names and batches\<close>

lemma digit_char_inj: "a < 10 \<Longrightarrow> b < 10 \<Longrightarrow> digit_char a = digit_char b \<Longrightarrow> a = b"
proof -
  assume a: "a < 10" and b: "b < 10" and eq: "digit_char a = digit_char b"
  from eq have "of_char (char_of (48 + a) :: char) = (of_char (char_of (48 + b) :: char) :: nat)"
    by (simp add: digit_char_def)
  with a b show ?thesis by (simp add: of_char_of)
qed

lemma str_nat_nonempty: "str_nat n \<noteq> []"
  by (subst str_nat.simps) simp

lemma str_nat_inj: "str_nat n = str_nat m \<Longrightarrow> n = m"
proof (induction n arbitrary: m rule: str_nat.induct)
  case (1 n)
  show ?case
  proof (cases "n < 10")
    case True
    then have n: "str_nat n = [digit_char n]" by (subst str_nat.simps) simp
    show ?thesis
    proof (cases "m < 10")
      case True
      then have "str_nat m = [digit_char m]" by (subst str_nat.simps) simp
      with n "1.prems" True \<open>n < 10\<close> show ?thesis by (auto dest: digit_char_inj)
    next
      case False
      then have "str_nat m = str_nat (m div 10) @ [digit_char (m mod 10)]"
        by (subst str_nat.simps) simp
      with n "1.prems" str_nat_nonempty [of "m div 10"] show ?thesis by simp
    qed
  next
    case False
    then have n: "str_nat n = str_nat (n div 10) @ [digit_char (n mod 10)]"
      by (subst str_nat.simps) simp
    show ?thesis
    proof (cases "m < 10")
      case True
      then have "str_nat m = [digit_char m]" by (subst str_nat.simps) simp
      with n "1.prems" str_nat_nonempty [of "n div 10"] show ?thesis by simp
    next
      case m: False
      then have "str_nat m = str_nat (m div 10) @ [digit_char (m mod 10)]"
        by (subst str_nat.simps) simp
      with n "1.prems" have eq: "str_nat (n div 10) = str_nat (m div 10)"
        "digit_char (n mod 10) = digit_char (m mod 10)" by simp_all
      from "1.IH" [OF False eq(1)] have d: "n div 10 = m div 10" .
      from eq(2) have "n mod 10 = m mod 10" by (intro digit_char_inj) simp_all
      with d show ?thesis by (metis div_mult_mod_eq)
    qed
  qed
qed

lemma unit_name_of_inj: "unit_name_of i = unit_name_of j \<Longrightarrow> i = j"
  by (simp add: unit_name_of_def str_nat_inj)

lemma unit_name_of_nonempty: "unit_name_of i \<noteq> []"
  by (simp add: unit_name_of_def)

lemma chunk_Nil [simp]: "chunk n [] = []"
  by (subst chunk.simps) simp

lemma chunk_Cons: "0 < n \<Longrightarrow> xs \<noteq> [] \<Longrightarrow> chunk n xs = take n xs # chunk n (drop n xs)"
  by (subst chunk.simps) simp

lemma chunk_eq_Nil: "0 < n \<Longrightarrow> chunk n xs = [] \<longleftrightarrow> xs = []"
  by (cases "xs = []") (simp_all add: chunk_Cons)

lemma length_chunk: "0 < n \<Longrightarrow> length (chunk n xs) = (length xs + n - 1) div n"
proof (induction n xs rule: chunk.induct)
  case (1 n xs)
  show ?case
  proof (cases "xs = []")
    case True
    with "1.prems" show ?thesis by simp
  next
    case False
    with "1.prems" have ih: "length (chunk n (drop n xs)) = (length (drop n xs) + n - 1) div n"
      by (intro "1.IH") simp_all
    show ?thesis
    proof (cases "n \<le> length xs")
      case True
      have "length xs + n - 1 = (length xs - 1) + n" using False by (cases xs) simp_all
      then have "(length xs + n - 1) div n = ((length xs - 1) + n) div n" by (rule arg_cong)
      also have "\<dots> = Suc ((length xs - 1) div n)"
        using "1.prems" div_add_self2 [of n "length xs - 1"] by simp
      finally have "(length xs + n - 1) div n = Suc ((length xs - 1) div n)" .
      moreover have "length (drop n xs) + n - 1 = length xs - 1" using True by simp
      ultimately show ?thesis using ih False "1.prems" by (simp add: chunk_Cons)
    next
      case short: False
      then have "drop n xs = []" by simp
      moreover have "(length xs + n - 1) div n = 1"
      proof -
        from False have "0 < length xs" by simp
        with short have "n \<le> length xs + n - 1" "length xs + n - 1 < 2 * n" by arith+
        then show ?thesis by (simp add: div_nat_eqI)
      qed
      ultimately show ?thesis using False "1.prems" by (simp add: chunk_Cons)
    qed
  qed
qed

lemma chunk_butlast_lengths:
  "0 < n \<Longrightarrow> b \<in> set (butlast (chunk n xs)) \<Longrightarrow> length b = n"
proof (induction n xs rule: chunk.induct)
  case (1 n xs)
  show ?case
  proof (cases "xs = []")
    case True
    with "1.prems" show ?thesis by simp
  next
    case False
    then have c: "chunk n xs = take n xs # chunk n (drop n xs)" using "1.prems" by (simp add: chunk_Cons)
    show ?thesis
    proof (cases "drop n xs = []")
      case True
      with c "1.prems" show ?thesis by simp
    next
      case rest: False
      then have "chunk n (drop n xs) \<noteq> []" using "1.prems" by (simp add: chunk_eq_Nil)
      with c "1.prems" have "b = take n xs \<or> b \<in> set (butlast (chunk n (drop n xs)))" by simp
      moreover have "length (take n xs) = n" using rest by simp
      moreover have "b \<in> set (butlast (chunk n (drop n xs))) \<Longrightarrow> length b = n"
        using "1.IH" False "1.prems" by simp
      ultimately show ?thesis by blast
    qed
  qed
qed

lemma chunk_last_length:
  "0 < n \<Longrightarrow> xs \<noteq> [] \<Longrightarrow>
   length (last (chunk n xs)) = (if length xs mod n = 0 then n else length xs mod n)"
proof (induction n xs rule: chunk.induct)
  case (1 n xs)
  then have c: "chunk n xs = take n xs # chunk n (drop n xs)" by (simp add: chunk_Cons)
  show ?case
  proof (cases "drop n xs = []")
    case True
    then have le: "length xs \<le> n" by simp
    from "1.prems" have "0 < length xs" by simp
    with le have "(if length xs mod n = 0 then n else length xs mod n) = length xs"
      by (cases "length xs = n") simp_all
    with c True le show ?thesis by simp
  next
    case False
    then have ge: "n < length xs" by simp
    from False "1.prems" have ne: "chunk n (drop n xs) \<noteq> []" by (simp add: chunk_eq_Nil)
    have "length (last (chunk n (drop n xs)))
        = (if length (drop n xs) mod n = 0 then n else length (drop n xs) mod n)"
      using "1.IH" "1.prems" False by simp
    moreover have "length (drop n xs) mod n = length xs mod n"
      using ge by (simp add: le_mod_geq)
    ultimately show ?thesis using c ne by simp
  qed
qed

subsection \<open>The loops of \<open>start\<close>\<close>

lemma length_members_of [simp]: "length (members_of k ps) = length ps"
  by (simp add: members_of_def)

lemma members_of_Cons: "members_of k (p # ps) = (k, posting_id p) # members_of (Suc k) ps"
  by (simp add: members_of_def)

lemma map_entry_twice:
  "AList.map_entry k f (AList.map_entry k g al) = AList.map_entry k (\<lambda>v. f (g v)) al"
  by (induction al) auto

lemma write_postings_units:
  "fst (write_postings dir nm k ps (us, fs))
     = AList.map_entry nm (\<lambda>members. members @ members_of k ps) us"
proof (induction ps arbitrary: k us fs)
  case Nil
  have "AList.map_entry nm (\<lambda>members. members) us = us" by (induction us) auto
  then show ?case by (simp add: members_of_def)
next
  case (Cons p ps)
  show ?case
    by (simp add: Let_def Cons.IH map_entry_twice members_of_Cons)
qed

lemma update_fresh: "k \<notin> set (keys al) \<Longrightarrow> AList.update k v al = al @ [(k, v)]"
  by (induction al) (auto simp: keys_def)

lemma map_entry_last: "k \<notin> set (keys al) \<Longrightarrow> AList.map_entry k f (al @ [(k, v)]) = al @ [(k, f v)]"
  by (induction al) (auto simp: keys_def)

lemma units_of_Cons: "units_of n (b # bs) = (unit_name_of n, members_of 0 b) # units_of (Suc n) bs"
  by (simp add: units_of_def)

lemma write_units_units:
  assumes "\<forall>i \<ge> n. unit_name_of i \<notin> set (keys us)"
  shows "fst (write_units e n bs (us, fs)) = us @ units_of n bs"
  using assms
proof (induction bs arbitrary: n us fs)
  case Nil
  then show ?case by (simp add: units_of_def)
next
  case (Cons b bs)
  let ?nm = "unit_name_of n"
  have fresh: "?nm \<notin> set (keys us)" using Cons.prems by simp
  obtain us' fs' where w: "write_postings (unit_path e ?nm) ?nm 0 b (AList.update ?nm [] us, fs) = (us', fs')"
    by (cases "write_postings (unit_path e ?nm) ?nm 0 b (AList.update ?nm [] us, fs)")
  have us': "us' = us @ [(?nm, members_of 0 b)]"
    using write_postings_units [of "unit_path e ?nm" ?nm 0 b "AList.update ?nm [] us" fs] w fresh
    by (simp add: update_fresh map_entry_last)
  have "\<forall>i \<ge> Suc n. unit_name_of i \<notin> set (keys us')"
    using Cons.prems us' by (auto simp: keys_def dest: unit_name_of_inj)
  from Cons.IH [OF this, of fs'] w us' show ?case
    by (simp add: units_of_Cons)
qed

lemma start_units:
  "units (md (snd (start smp ents m k e))) = Some (units_of 0 (Batch (postings smp) k))"
proof -
  obtain us fs where w: "write_units e 0 (Batch (postings smp) k) ([], s3 e) = (us, fs)"
    by (cases "write_units e 0 (Batch (postings smp) k) ([], s3 e)")
  have "us = units_of 0 (Batch (postings smp) k)"
    using write_units_units [of 0 "[]" e "Batch (postings smp) k" "s3 e"] w by (simp add: keys_def)
  with w show ?thesis by (simp add: start_def Let_def md_def set_md_def save_def)
qed

lemma start_fields:
  "fst (start smp ents m k e) = Inr ()"
  "saved (metadata (snd (start smp ents m k e))) = storage (metadata (snd (start smp ents m k e)))"
  "sample_base_path (md (snd (start smp ents m k e))) = Some (base_path smp)"
  "sample_name (md (snd (start smp ents m k e))) = Some (name smp)"
  "entities_with_shortcuts (md (snd (start smp ents m k e))) = Some ents"
  "minimum_annotations_per_posting (md (snd (start smp ents m k e))) = Some m"
  "max_postings_per_allocation (md (snd (start smp ents m k e))) = Some k"
  "allocations (md (snd (start smp ents m k e))) = allocations (md e)"
  "user_pw_store (snd (start smp ents m k e)) = user_pw_store e"
  by (simp_all add: start_def Let_def md_def set_md_def save_def split: prod.splits)

lemma length_units_of [simp]: "length (units_of n bs) = length bs"
  by (simp add: units_of_def)

lemma units_of_nth:
  "i < length bs \<Longrightarrow> units_of n bs ! i = (unit_name_of (n + i), members_of 0 (bs ! i))"
  by (simp add: units_of_def nth_enumerate_eq)

lemma units_of_names: "map fst (units_of n bs) = map unit_name_of [n..<n + length bs]"
proof -
  have "fst \<circ> (\<lambda>(i, b). (unit_name_of i, members_of 0 b)) = unit_name_of \<circ> fst"
    by (auto simp: fun_eq_iff)
  then have "map fst (units_of n bs) = map (unit_name_of \<circ> fst) (List.enumerate n bs)"
    by (simp add: units_of_def)
  also have "\<dots> = map unit_name_of (map fst (List.enumerate n bs))"
    by (simp only: map_map)
  also have "\<dots> = map unit_name_of [n..<n + length bs]"
    by (simp only: map_fst_enumerate)
  finally show ?thesis .
qed

lemma Batch_chunk: "xs \<noteq> [] \<Longrightarrow> 1 \<le> limit \<Longrightarrow> Batch xs limit = chunk (nat limit) xs"
  by (simp add: Batch_def)

lemma Batch_Nil [simp]: "Batch [] limit = []"
  by (simp add: Batch_def)

subsection \<open>What a sequence of calls keeps\<close>

lemma copy_keys_copy_fails:
  "copy_keys src dst ks fs = (r, fs') \<Longrightarrow> copy_fails fs' = copy_fails fs"
proof (induction ks arbitrary: fs)
  case Nil
  then show ?case by simp
next
  case (Cons k ks)
  show ?case
  proof (cases "s3_copy k (py_replace k src dst) fs")
    case (Inl err)
    with Cons.prems show ?thesis by simp
  next
    case (Inr fs1)
    then have "copy_fails fs1 = copy_fails fs"
      by (auto simp: s3_copy_def split: if_splits option.splits)
    moreover from Inr Cons.prems have "copy_fails fs' = copy_fails fs1"
      by (intro Cons.IH) simp
    ultimately show ?thesis by simp
  qed
qed

lemma map_entry_keys: "keys (AList.map_entry k f al) = keys al"
  by (induction al) (auto simp: keys_def)

lemma allocations_is_dict_s3_update [simp]:
  "allocations_is_dict (e\<lparr>s3 := fs\<rparr>) = allocations_is_dict e"
  by (simp add: allocations_is_dict_def)

lemma allocations_is_dict_pw_update [simp]:
  "allocations_is_dict (e\<lparr>user_pw_store := st\<rparr>) = allocations_is_dict e"
  by (simp add: allocations_is_dict_def)

lemma allocations_is_dict_append:
  "allocations_is_dict e \<Longrightarrow> allocations_is_dict (append_allocation w u e)"
  by (auto simp: allocations_is_dict_def append_allocation_def map_entry_keys split: option.splits)

text \<open>What every call of \<open>add_allocation\<close> keeps.\<close>

lemma add_allocation_keeps:
  "units (md (snd (add_allocation w e))) = units (md e)"
  "minimum_annotations_per_posting (md (snd (add_allocation w e))) = minimum_annotations_per_posting (md e)"
  "copy_fails (s3 (snd (add_allocation w e))) = copy_fails (s3 e)"
  "allocations_is_dict e \<Longrightarrow> allocations_is_dict (snd (add_allocation w e))"
proof -
  show "units (md (snd (add_allocation w e))) = units (md e)"
    by (cases "registered e w")
      (simp_all add: add_allocation_registered add_allocation_unregistered
        split: sum.splits prod.splits)
  show "minimum_annotations_per_posting (md (snd (add_allocation w e)))
      = minimum_annotations_per_posting (md e)"
    by (cases "registered e w")
      (simp_all add: add_allocation_registered add_allocation_unregistered
        split: sum.splits prod.splits)
  show "copy_fails (s3 (snd (add_allocation w e))) = copy_fails (s3 e)"
    by (cases "registered e w")
      (auto simp: add_allocation_registered add_allocation_unregistered
        split: sum.splits prod.splits dest: copy_keys_copy_fails)
  show "allocations_is_dict (snd (add_allocation w e))" if "allocations_is_dict e"
    using that init_allocations_is_dict [OF that, of w]
    by (cases "registered e w")
      (simp_all add: add_allocation_registered add_allocation_unregistered
        allocations_is_dict_append split: sum.splits prod.splits)
qed

lemma add_allocation_registered_kept:
  "registered (snd (add_allocation w' e)) w = registered e w"
  by (simp add: registered_def add_allocation_user_pw_store)

lemma add_user_keeps:
  "units (md (snd (add_user w p e))) = units (md e)"
  "minimum_annotations_per_posting (md (snd (add_user w p e))) = minimum_annotations_per_posting (md e)"
  "copy_fails (s3 (snd (add_user w p e))) = copy_fails (s3 e)"
  "allocations_is_dict e \<Longrightarrow> allocations_is_dict (snd (add_user w p e))"
  "registered e w' \<Longrightarrow> registered (snd (add_user w p e)) w'"
proof -
  let ?e2 = "e\<lparr>user_pw_store := save ((user_pw_store e)\<lparr>storage := AList.update w p (storage (user_pw_store e))\<rparr>)\<rparr>"
  show "units (md (snd (add_user w p e))) = units (md e)"
    using add_allocation_keeps(1) [of w ?e2]
    by (cases "registered e w") (simp_all add: add_user_registered add_user_unregistered)
  show "minimum_annotations_per_posting (md (snd (add_user w p e)))
      = minimum_annotations_per_posting (md e)"
    using add_allocation_keeps(2) [of w ?e2]
    by (cases "registered e w") (simp_all add: add_user_registered add_user_unregistered)
  show "copy_fails (s3 (snd (add_user w p e))) = copy_fails (s3 e)"
    using add_allocation_keeps(3) [of w ?e2]
    by (cases "registered e w") (simp_all add: add_user_registered add_user_unregistered)
  show "allocations_is_dict (snd (add_user w p e))" if "allocations_is_dict e"
    using that add_allocation_keeps(4) [of ?e2 w]
    by (cases "registered e w") (simp_all add: add_user_registered add_user_unregistered)
  show "registered (snd (add_user w p e)) w'" if "registered e w'"
  proof (cases "registered e w")
    case True
    with that show ?thesis by (simp add: add_user_registered)
  next
    case False
    have "registered ?e2 w'"
      using that by (simp add: registered_def save_def keys_def dom_update)
    with False show ?thesis
      by (simp add: add_user_unregistered add_allocation_registered_kept)
  qed
qed

lemma run_calls_keeps:
  assumes "registered e w" "allocations_is_dict e" "units (md e) = Some us"
    "minimum_annotations_per_posting (md e) = Some k" "copy_fails (s3 e) = []"
  shows "registered (run_calls cs e) w \<and> allocations_is_dict (run_calls cs e)
         \<and> units (md (run_calls cs e)) = Some us
         \<and> minimum_annotations_per_posting (md (run_calls cs e)) = Some k
         \<and> copy_fails (s3 (run_calls cs e)) = []"
  using assms
proof (induction cs e rule: run_calls.induct)
  case (1 e)
  then show ?case by simp
next
  case (2 username password cs e)
  show ?case
    unfolding run_calls.simps
    using "2.prems" by (intro "2.IH") (simp_all add: add_user_keeps)
next
  case (3 user_name cs e)
  show ?case
    unfolding run_calls.simps
    using "3.prems"
    by (intro "3.IH") (simp_all add: add_allocation_keeps add_allocation_registered_kept)
qed

lemma spec_allocate_next_Inl:
  assumes "spec_allocate_next e w = Inl err"
  shows "err = no_units_left_error \<and> set (unit_names e) \<subseteq> set (history e w)"
proof -
  let ?novel = "filter (\<lambda>u. u \<notin> set (history e w)) (unit_names e)"
  from assms have "?novel = [] \<and> err = no_units_left_error"
    by (auto simp: spec_allocate_next_def Let_def split: option.splits list.splits)
  then show ?thesis by (auto simp: filter_empty_conv)
qed

lemma add_allocation_dichotomy:
  assumes "registered e w" "allocations_is_dict e" "units (md e) = Some us" "[] \<notin> set (keys us)"
    "minimum_annotations_per_posting (md e) = Some k" "copy_fails (s3 e) = []"
  shows "(\<exists>u. u \<notin> set (history e w)
            \<and> fst (add_allocation w e) = Inr (allocation_path e w u)
            \<and> history (snd (add_allocation w e)) w = history e w @ [u])
       \<or> (set (unit_names e) \<subseteq> set (history e w)
            \<and> fst (add_allocation w e) = Inl no_units_left_error
            \<and> history (snd (add_allocation w e)) w = history e w)"
proof -
  have c: "choose_unit (init_allocations w e) w = spec_allocate_next e w"
    using assms(2,5,3,4) by (rule choose_unit_init_spec)
  show ?thesis
  proof (cases "spec_allocate_next e w")
    case (Inl err)
    from spec_allocate_next_Inl [OF Inl] have err: "err = no_units_left_error"
      and all: "set (unit_names e) \<subseteq> set (history e w)" by simp_all
    from c Inl err have "add_allocation w e = (Inl no_units_left_error, init_allocations w e)"
      using add_allocation_choice_error [OF assms(1), of err] by simp
    with all show ?thesis by simp
  next
    case (Inr u)
    with c have "choose_unit (init_allocations w e) w = Inr u" by simp
    from add_allocation_success [OF assms(1) this assms(6)] obtain e' where
      r: "add_allocation w e = (Inr (allocation_path e w u), e')" by blast
    from add_allocation_Inr_history [OF r] obtain u' where
      u': "allocation_path e w u = allocation_path e w u'"
      and n: "u' \<notin> set (history e w)"
      and h: "history e' w = history e w @ [u']" by blast
    from u' have "u' = u" by (simp add: allocation_path_def)
    with r n h show ?thesis by auto
  qed
qed

section \<open>The claims\<close>

text \<open>
  C9. \<open>allocate_next\<close> (\<open>add_allocation\<close>) for a worker that is not in the
  user-password store fails with the unknown-worker error (the \<open>ValueError\<close> of line
  172), and the experiment state is the one it was called on.
\<close>

theorem add_allocation_unknown_worker:
  assumes "\<not> registered e user_name"
  shows "add_allocation user_name e = (Inl unknown_user_error, e)"
  using assms by (rule add_allocation_unregistered)

theorem add_allocation_unknown_worker_witness:
  "\<not> registered example_started ''w''
   \<and> add_allocation ''w'' example_started = (Inl unknown_user_error, example_started)"
proof -
  have h: "\<not> registered example_started ''w''" by code_simp
  show ?thesis using h add_allocation_unknown_worker [OF h] by simp
qed

text \<open>
  C10. On a state whose metadata has no \<open>allocations\<close> key (no allocation request has
  run; \<open>start\<close> does not create the key), \<open>needs_more_coverage\<close>
  (\<open>needs_allocation\<close>) returns no boolean for any unit name: it raises the
  \<open>KeyError\<close> of the missing key.
\<close>

theorem needs_allocation_before_first_allocation:
  assumes "allocations (md e) = None"
  shows "needs_allocation e unit_name = Inl (KeyError ''allocations'')
         \<and> (\<forall>b. needs_allocation e unit_name \<noteq> Inr b)"
  using assms by (simp add: needs_allocation_def)

theorem needs_allocation_before_first_allocation_witness:
  "allocations (md example_started) = None
   \<and> needs_allocation example_started ''unit_0'' = Inl (KeyError ''allocations'')
   \<and> (\<forall>b. needs_allocation example_started ''unit_0'' \<noteq> Inr b)"
proof -
  have h: "allocations (md example_started) = None" by code_simp
  show ?thesis
    using h needs_allocation_before_first_allocation [OF h, of "''unit_0''"] by simp
qed

text \<open>
  C1. For a registered worker, on a started experiment whose store copies without
  failure, \<open>allocate_next\<close> (\<open>add_allocation\<close>) chooses the unit by the two-tier
  policy of the specification, \<open>spec_allocate_next\<close>: the first unit in creation order
  that is not in the worker's history and needs more coverage; if there is none, the
  first unit not in the history; if the history holds every unit, the call fails with
  the exhausted error (the \<open>ValueError\<close> of line 205). The chosen unit is the one whose
  destination path is returned and which is appended to the history.
\<close>

theorem allocate_next_policy:
  assumes "registered e worker" "allocations_is_dict e"
    "units (md e) = Some us" "[] \<notin> set (keys us)"
    "minimum_annotations_per_posting (md e) = Some k"
    "copy_fails (s3 e) = []"
  shows "(case spec_allocate_next e worker of
            Inl err \<Rightarrow> fst (add_allocation worker e) = Inl err
          | Inr u \<Rightarrow> fst (add_allocation worker e) = Inr (allocation_path e worker u)
                     \<and> history (snd (add_allocation worker e)) worker = history e worker @ [u])
         \<and> (set (unit_names e) \<subseteq> set (history e worker)
              \<longrightarrow> fst (add_allocation worker e) = Inl no_units_left_error)"
proof -
  have c: "choose_unit (init_allocations worker e) worker = spec_allocate_next e worker"
    using assms(2,5,3,4) by (rule choose_unit_init_spec)
  have main: "case spec_allocate_next e worker of
            Inl err \<Rightarrow> fst (add_allocation worker e) = Inl err
          | Inr u \<Rightarrow> fst (add_allocation worker e) = Inr (allocation_path e worker u)
                     \<and> history (snd (add_allocation worker e)) worker = history e worker @ [u]"
  proof (cases "spec_allocate_next e worker")
    case (Inl err)
    with c add_allocation_choice_error [OF assms(1), of err] show ?thesis by simp
  next
    case (Inr u)
    with c have "choose_unit (init_allocations worker e) worker = Inr u" by simp
    from add_allocation_success [OF assms(1) this assms(6)] obtain e' where
      r: "add_allocation worker e = (Inr (allocation_path e worker u), e')" by blast
    from add_allocation_Inr_history [OF r] obtain u' where
      u': "allocation_path e worker u = allocation_path e worker u'"
      and h: "history e' worker = history e worker @ [u']" by blast
    from u' have "u' = u" by (simp add: allocation_path_def)
    with r h Inr show ?thesis by simp
  qed
  have "fst (add_allocation worker e) = Inl no_units_left_error"
    if "set (unit_names e) \<subseteq> set (history e worker)"
    using main spec_allocate_next_exhausted [OF that] by simp
  with main show ?thesis by simp
qed


theorem allocate_next_policy_witness:
  "registered example_registered ''w'' \<and> allocations_is_dict example_registered
   \<and> units (md example_registered) = Some [(''unit_0'', [(0, ''a''), (1, ''b'')]), (''unit_1'', [(0, ''c'')])]
   \<and> minimum_annotations_per_posting (md example_registered) = Some 2
   \<and> copy_fails (s3 example_registered) = []
   \<and> spec_allocate_next example_registered ''w'' = Inr ''unit_0''
   \<and> fst (add_allocation ''w'' example_registered) = Inr (allocation_path example_registered ''w'' ''unit_0'')
   \<and> history (snd (add_allocation ''w'' example_registered)) ''w'' = [''unit_0'']"
proof -
  have h1: "registered example_registered ''w''" by code_simp
  have h2: "allocations_is_dict example_registered" by code_simp
  have h3: "units (md example_registered)
      = Some [(''unit_0'', [(0, ''a''), (1, ''b'')]), (''unit_1'', [(0, ''c'')])]" by code_simp
  have h4: "[] \<notin> set (keys [(''unit_0'', [(0::nat, ''a''), (1, ''b'')]), (''unit_1'', [(0, ''c'')])])"
    by (simp add: keys_def)
  have h5: "minimum_annotations_per_posting (md example_registered) = Some 2" by code_simp
  have h6: "copy_fails (s3 example_registered) = []" by code_simp
  have s: "spec_allocate_next example_registered ''w'' = Inr ''unit_0''" by code_simp
  have h: "history example_registered ''w'' = []" by code_simp
  have "fst (add_allocation ''w'' example_registered) = Inr (allocation_path example_registered ''w'' ''unit_0'')
     \<and> history (snd (add_allocation ''w'' example_registered)) ''w'' = history example_registered ''w'' @ [''unit_0'']"
    using allocate_next_policy [OF h1 h2 h3 h4 h5 h6] by (simp add: s)
  with h1 h2 h3 h5 h6 s h show ?thesis by simp
qed

text \<open>
  C4. No allocation history ever holds a unit name twice: the property
  \<open>no_duplicates\<close> is kept by every sequence of \<open>register_worker\<close> (\<open>add_user\<close>) and
  \<open>allocate_next\<close> (\<open>add_allocation\<close>) calls, whatever each call returns, so every
  worker's history stays duplicate-free. A successful \<open>allocate_next\<close> returns the
  destination of a unit that was not in the calling worker's history and appends
  exactly that unit; a failing call leaves the history as it was. And for a registered
  worker on a started experiment whose store copies without failure, after any such
  sequence of calls the next \<open>allocate_next\<close> either advances the worker to a unit
  that is not in its history, or the history already holds every unit and the call fails
  with the exhausted error (the \<open>ValueError\<close> of line 205), the history unchanged.
\<close>

theorem allocation_history_never_repeats:
  assumes "no_duplicates e"
  shows "no_duplicates (run_calls cs e)
         \<and> (\<forall>w. distinct (history (run_calls cs e) w))
         \<and> (\<forall>w p e'. add_allocation w e = (Inr p, e') \<longrightarrow>
               (\<exists>u. p = allocation_path e w u \<and> u \<notin> set (history e w)
                    \<and> history e' w = history e w @ [u]))
         \<and> (\<forall>w err e'. add_allocation w e = (Inl err, e') \<longrightarrow> history e' w = history e w)
         \<and> (\<forall>w us k.
               registered e w \<and> allocations_is_dict e \<and> units (md e) = Some us
               \<and> [] \<notin> set (keys us) \<and> minimum_annotations_per_posting (md e) = Some k
               \<and> copy_fails (s3 e) = [] \<longrightarrow>
               (\<exists>u. u \<notin> set (history (run_calls cs e) w)
                    \<and> fst (add_allocation w (run_calls cs e)) = Inr (allocation_path (run_calls cs e) w u)
                    \<and> history (snd (add_allocation w (run_calls cs e))) w
                        = history (run_calls cs e) w @ [u])
               \<or> (set (unit_names (run_calls cs e)) \<subseteq> set (history (run_calls cs e) w)
                    \<and> fst (add_allocation w (run_calls cs e)) = Inl no_units_left_error
                    \<and> history (snd (add_allocation w (run_calls cs e))) w
                        = history (run_calls cs e) w))"
proof -
  have nd: "no_duplicates (run_calls cs e)" using assms by (rule no_duplicates_run_calls)
  have a: "\<exists>u. p = allocation_path e w u \<and> u \<notin> set (history e w) \<and> history e' w = history e w @ [u]"
    if "add_allocation w e = (Inr p, e')" for w p e'
    using add_allocation_Inr_history [OF that] by blast
  have b: "history e' w = history e w" if "add_allocation w e = (Inl err, e')" for w err e'
    using that by (rule add_allocation_Inl_history)
  have c: "(\<exists>u. u \<notin> set (history (run_calls cs e) w)
                    \<and> fst (add_allocation w (run_calls cs e)) = Inr (allocation_path (run_calls cs e) w u)
                    \<and> history (snd (add_allocation w (run_calls cs e))) w
                        = history (run_calls cs e) w @ [u])
               \<or> (set (unit_names (run_calls cs e)) \<subseteq> set (history (run_calls cs e) w)
                    \<and> fst (add_allocation w (run_calls cs e)) = Inl no_units_left_error
                    \<and> history (snd (add_allocation w (run_calls cs e))) w
                        = history (run_calls cs e) w)"
    if h: "registered e w" "allocations_is_dict e" "units (md e) = Some us"
      "[] \<notin> set (keys us)" "minimum_annotations_per_posting (md e) = Some k"
      "copy_fails (s3 e) = []" for w us k
  proof -
    from run_calls_keeps [OF h(1,2,3,5,6), of cs]
    have k: "registered (run_calls cs e) w" "allocations_is_dict (run_calls cs e)"
      "units (md (run_calls cs e)) = Some us"
      "minimum_annotations_per_posting (md (run_calls cs e)) = Some k"
      "copy_fails (s3 (run_calls cs e)) = []" by simp_all
    from k(1,2,3) h(4) k(4,5) show ?thesis by (rule add_allocation_dichotomy)
  qed
  have c': "\<forall>w us k.
               registered e w \<and> allocations_is_dict e \<and> units (md e) = Some us
               \<and> [] \<notin> set (keys us) \<and> minimum_annotations_per_posting (md e) = Some k
               \<and> copy_fails (s3 e) = [] \<longrightarrow>
               (\<exists>u. u \<notin> set (history (run_calls cs e) w)
                    \<and> fst (add_allocation w (run_calls cs e)) = Inr (allocation_path (run_calls cs e) w u)
                    \<and> history (snd (add_allocation w (run_calls cs e))) w
                        = history (run_calls cs e) w @ [u])
               \<or> (set (unit_names (run_calls cs e)) \<subseteq> set (history (run_calls cs e) w)
                    \<and> fst (add_allocation w (run_calls cs e)) = Inl no_units_left_error
                    \<and> history (snd (add_allocation w (run_calls cs e))) w
                        = history (run_calls cs e) w)"
    using c by blast
  have a': "\<forall>w p e'. add_allocation w e = (Inr p, e') \<longrightarrow>
               (\<exists>u. p = allocation_path e w u \<and> u \<notin> set (history e w)
                    \<and> history e' w = history e w @ [u])"
    using a by blast
  have b': "\<forall>w err e'. add_allocation w e = (Inl err, e') \<longrightarrow> history e' w = history e w"
    using b by blast
  have d: "\<forall>w. distinct (history (run_calls cs e) w)"
    using no_duplicates_history [OF nd] by blast
  from nd d a' b' c' show ?thesis by (intro conjI)
qed

theorem allocation_history_never_repeats_witness:
  "no_duplicates example_registered
   \<and> registered example_registered ''w'' \<and> allocations_is_dict example_registered
   \<and> units (md example_registered) = Some [(''unit_0'', [(0, ''a''), (1, ''b'')]), (''unit_1'', [(0, ''c'')])]
   \<and> minimum_annotations_per_posting (md example_registered) = Some 2
   \<and> copy_fails (s3 example_registered) = []
   \<and> no_duplicates (run_calls [Add_user ''v'' ''q'', Add_allocation ''w'', Add_allocation ''w''] example_registered)
   \<and> history (run_calls [Add_user ''v'' ''q'', Add_allocation ''w'', Add_allocation ''w''] example_registered) ''w''
       = [''unit_0'', ''unit_1'']
   \<and> fst (add_allocation ''w'' (run_calls [Add_user ''v'' ''q'', Add_allocation ''w'', Add_allocation ''w''] example_registered))
       = Inl no_units_left_error
   \<and> ((\<exists>u. fst (add_allocation ''w'' example_registered) = Inr (allocation_path example_registered ''w'' u)
            \<and> history (snd (add_allocation ''w'' example_registered)) ''w'' = history example_registered ''w'' @ [u])
        \<or> fst (add_allocation ''w'' example_registered) = Inl no_units_left_error)"
proof -
  let ?us = "[(''unit_0'', [(0::nat, ''a''), (1, ''b'')]), (''unit_1'', [(0, ''c'')])]"
  let ?cs = "[Add_user ''v'' ''q'', Add_allocation ''w'', Add_allocation ''w'']"
  have h: "no_duplicates example_registered" by code_simp
  have h1: "registered example_registered ''w''" by code_simp
  have h2: "allocations_is_dict example_registered" by code_simp
  have h3: "units (md example_registered) = Some ?us" by code_simp
  have h4: "[] \<notin> set (keys ?us)" by (simp add: keys_def)
  have h5: "minimum_annotations_per_posting (md example_registered) = Some 2" by code_simp
  have h6: "copy_fails (s3 example_registered) = []" by code_simp
  have v: "history (run_calls ?cs example_registered) ''w'' = [''unit_0'', ''unit_1'']" by code_simp
  have n: "unit_names (run_calls ?cs example_registered) = [''unit_0'', ''unit_1'']" by code_simp
  note t = allocation_history_never_repeats [OF h]
  have nd: "no_duplicates (run_calls ?cs example_registered)" using t [of ?cs] by blast
  have "(\<exists>u. u \<notin> set (history (run_calls ?cs example_registered) ''w'')
            \<and> fst (add_allocation ''w'' (run_calls ?cs example_registered))
                = Inr (allocation_path (run_calls ?cs example_registered) ''w'' u)
            \<and> history (snd (add_allocation ''w'' (run_calls ?cs example_registered))) ''w''
                = history (run_calls ?cs example_registered) ''w'' @ [u])
        \<or> (set (unit_names (run_calls ?cs example_registered)) \<subseteq> set (history (run_calls ?cs example_registered) ''w'')
            \<and> fst (add_allocation ''w'' (run_calls ?cs example_registered)) = Inl no_units_left_error
            \<and> history (snd (add_allocation ''w'' (run_calls ?cs example_registered))) ''w''
                = history (run_calls ?cs example_registered) ''w'')"
    using t [of ?cs] h1 h2 h3 h4 h5 h6 by blast
  moreover have "fst (add_allocation ''w'' (run_calls ?cs example_registered)) \<noteq> Inr p" for p
    by code_simp
  ultimately have ex: "fst (add_allocation ''w'' (run_calls ?cs example_registered)) = Inl no_units_left_error"
    by auto
  have "(\<exists>u. u \<notin> set (history (run_calls [] example_registered) ''w'')
            \<and> fst (add_allocation ''w'' (run_calls [] example_registered))
                = Inr (allocation_path (run_calls [] example_registered) ''w'' u)
            \<and> history (snd (add_allocation ''w'' (run_calls [] example_registered))) ''w''
                = history (run_calls [] example_registered) ''w'' @ [u])
        \<or> (set (unit_names (run_calls [] example_registered)) \<subseteq> set (history (run_calls [] example_registered) ''w'')
            \<and> fst (add_allocation ''w'' (run_calls [] example_registered)) = Inl no_units_left_error
            \<and> history (snd (add_allocation ''w'' (run_calls [] example_registered))) ''w''
                = history (run_calls [] example_registered) ''w'')"
    using t [of "[]"] h1 h2 h3 h4 h5 h6 by blast
  then have first: "(\<exists>u. fst (add_allocation ''w'' example_registered) = Inr (allocation_path example_registered ''w'' u)
            \<and> history (snd (add_allocation ''w'' example_registered)) ''w'' = history example_registered ''w'' @ [u])
        \<or> fst (add_allocation ''w'' example_registered) = Inl no_units_left_error"
    by auto
  from h h1 h2 h3 h5 h6 nd v ex first show ?thesis by (intro conjI)
qed

text \<open>
  C5. \<open>register_worker\<close> (\<open>add_user\<close>) fails with the duplicate-worker error (the
  \<open>ValueError\<close> of line 143) when the worker is already registered, and then changes
  nothing. Otherwise it stores the credential, saves the user-password store, and runs
  one allocation for the worker: on a started experiment with at least one unit, where
  every key of \<open>allocations\<close> is a registered user and no copy fails, it returns the
  destination of a unit and the worker's history afterwards has exactly that one entry.
\<close>

theorem register_worker_allocates_once:
  "(registered e w \<longrightarrow> add_user w p e = (Inl (duplicate_user_error w), e))
   \<and> (\<not> registered e w \<longrightarrow>
        storage (user_pw_store (snd (add_user w p e))) = AList.update w p (storage (user_pw_store e))
        \<and> saved (user_pw_store (snd (add_user w p e))) = AList.update w p (storage (user_pw_store e))
        \<and> registered (snd (add_user w p e)) w
        \<and> (allocated_users_registered e \<and> units (md e) = Some us \<and> us \<noteq> [] \<and> [] \<notin> set (keys us)
            \<and> minimum_annotations_per_posting (md e) = Some k \<and> copy_fails (s3 e) = []
            \<longrightarrow> (\<exists>u \<in> set (keys us). fst (add_user w p e) = Inr (allocation_path e w u)
                   \<and> history (snd (add_user w p e)) w = [u])))"
proof -
  let ?e2 = "e\<lparr>user_pw_store := save ((user_pw_store e)\<lparr>storage := AList.update w p (storage (user_pw_store e))\<rparr>)\<rparr>"
  have reg: "registered ?e2 w" by (rule registered_after_store)
  have pw: "user_pw_store (snd (add_user w p e)) = user_pw_store ?e2" if "\<not> registered e w"
    using that add_allocation_user_pw_store [of w ?e2] by (simp add: add_user_unregistered)
  have one: "\<exists>u \<in> set (keys us). fst (add_user w p e) = Inr (allocation_path e w u)
                   \<and> history (snd (add_user w p e)) w = [u]"
    if nr: "\<not> registered e w" and inv: "allocated_users_registered e"
      and us: "units (md e) = Some us" "us \<noteq> []" "[] \<notin> set (keys us)"
      and k: "minimum_annotations_per_posting (md e) = Some k" and cf: "copy_fails (s3 e) = []"
  proof -
    have h: "history ?e2 w = []" using unregistered_history [OF inv nr] by simp
    obtain al where al: "allocations (md (init_allocations w ?e2)) = Some al"
      "map_of al w = Some (history ?e2 w)"
      using init_allocations_md by blast
    from us(2) have "\<exists>u \<in> set (keys us). u \<notin> set (history ?e2 w)"
      unfolding h by (cases us) (auto simp: keys_def)
    with choose_unit_succeeds [OF al, of k us] k us obtain u where
      u: "u \<in> set (keys us)" "choose_unit (init_allocations w ?e2) w = Inr u"
      by auto
    from add_allocation_success [OF reg u(2)] cf obtain e' where
      r: "add_allocation w ?e2 = (Inr (allocation_path ?e2 w u), e')" by auto
    from add_allocation_Inr_history [OF r] obtain u' where
      u': "allocation_path ?e2 w u = allocation_path ?e2 w u'"
      and h': "history e' w = history ?e2 w @ [u']" by blast
    from u' have "u' = u" by (simp add: allocation_path_def)
    with r h h' u(1) nr show ?thesis
      by (auto simp: add_user_unregistered)
  qed
  from pw reg one show ?thesis
    by (auto simp: add_user_registered add_user_unregistered registered_def save_def)
qed


theorem register_worker_allocates_once_witness:
  "registered example_registered ''w''
   \<and> add_user ''w'' ''q'' example_registered = (Inl (duplicate_user_error ''w''), example_registered)
   \<and> \<not> registered example_started ''w''
   \<and> allocated_users_registered example_started
   \<and> units (md example_started) = Some [(''unit_0'', [(0, ''a''), (1, ''b'')]), (''unit_1'', [(0, ''c'')])]
   \<and> minimum_annotations_per_posting (md example_started) = Some 2
   \<and> copy_fails (s3 example_started) = []
   \<and> saved (user_pw_store (snd (add_user ''w'' ''p'' example_started))) = [(''w'', ''p'')]
   \<and> (\<exists>u. fst (add_user ''w'' ''p'' example_started) = Inr (allocation_path example_started ''w'' u)
          \<and> history (snd (add_user ''w'' ''p'' example_started)) ''w'' = [u])"
proof -
  let ?us = "[(''unit_0'', [(0::nat, ''a''), (1, ''b'')]), (''unit_1'', [(0, ''c'')])]"
  have r: "registered example_registered ''w''" by code_simp
  have n: "\<not> registered example_started ''w''" by code_simp
  have h1: "allocated_users_registered example_started" by code_simp
  have h2: "units (md example_started) = Some ?us" by code_simp
  have h3: "?us \<noteq> [] \<and> [] \<notin> set (keys ?us)" by (simp add: keys_def)
  have h4: "minimum_annotations_per_posting (md example_started) = Some 2" by code_simp
  have h5: "copy_fails (s3 example_started) = []" by code_simp
  have st: "storage (user_pw_store example_started) = []" by code_simp
  have dup: "add_user ''w'' ''q'' example_registered = (Inl (duplicate_user_error ''w''), example_registered)"
    using r register_worker_allocates_once [of example_registered "''w''" "''q''"] by blast
  have new: "saved (user_pw_store (snd (add_user ''w'' ''p'' example_started))) = [(''w'', ''p'')]
     \<and> (\<exists>u \<in> set (keys ?us). fst (add_user ''w'' ''p'' example_started) = Inr (allocation_path example_started ''w'' u)
          \<and> history (snd (add_user ''w'' ''p'' example_started)) ''w'' = [u])"
    using n h1 h2 h3 h4 h5 register_worker_allocates_once [of example_started "''w''" "''p''" ?us 2]
    by (simp add: st)
  then have "\<exists>u. fst (add_user ''w'' ''p'' example_started) = Inr (allocation_path example_started ''w'' u)
          \<and> history (snd (add_user ''w'' ''p'' example_started)) ''w'' = [u]" by blast
  with r n h1 h2 h4 h5 dup new show ?thesis by simp
qed

text \<open>
  C2. A successful \<open>allocate_next\<close> is claimed to append the unit to the worker's
  history, persist that, copy the unit's artifacts to the destination and return the
  destination. The append, the copies and the returned path are there; the persisting is
  not: \<open>add_allocation\<close> never calls \<open>save()\<close>, so the saved metadata is the same
  before and after every call. In the example the worker holds \<open>unit_0\<close> in memory
  while the saved metadata still has no \<open>allocations\<close> at all.
\<close>

theorem add_allocation_never_saves:
  "saved (metadata (snd (add_allocation user_name e))) = saved (metadata e)
   \<and> fst (add_allocation ''w'' example_registered) = Inr ''b/x/brat_config/data/.w/unit_0''
   \<and> allocations (storage (metadata (snd (add_allocation ''w'' example_registered)))) = Some [(''w'', [''unit_0''])]
   \<and> allocations (saved (metadata (snd (add_allocation ''w'' example_registered)))) = None"
proof -
  have "fst (add_allocation ''w'' example_registered) = Inr ''b/x/brat_config/data/.w/unit_0''"
    by code_simp
  moreover have "allocations (storage (metadata (snd (add_allocation ''w'' example_registered))))
      = Some [(''w'', [''unit_0''])]"
    by code_simp
  moreover have "allocations (saved (metadata (snd (add_allocation ''w'' example_registered)))) = None"
    by code_simp
  ultimately show ?thesis by (simp add: add_allocation_saved)
qed

text \<open>
  C3, as stated. The claim is that the history is changed first and the content copied
  afterwards. On a store whose copy of the first file of \<open>unit_0\<close> fails, the unit
  chosen is \<open>unit_0\<close>, the call ends in the storage error, and \<open>unit_0\<close> is in no
  history, neither in memory nor saved: the copy was tried before anything was recorded.
\<close>

theorem commit_before_copy_counterexample:
  "choose_unit (init_allocations ''w'' example_broken) ''w'' = Inr ''unit_0''
   \<and> fst (add_allocation ''w'' example_broken) = Inl (StorageError ''b/x/brat_config/data/.unit_0/0.txt'')
   \<and> ''unit_0'' \<notin> set (history (snd (add_allocation ''w'' example_broken)) ''w'')
   \<and> allocations (saved (metadata (snd (add_allocation ''w'' example_broken)))) = None"
proof -
  have "choose_unit (init_allocations ''w'' example_broken) ''w'' = Inr ''unit_0''" by code_simp
  moreover have "fst (add_allocation ''w'' example_broken)
      = Inl (StorageError ''b/x/brat_config/data/.unit_0/0.txt'')" by code_simp
  moreover have "history (snd (add_allocation ''w'' example_broken)) ''w'' = []" by code_simp
  moreover have "allocations (saved (metadata (snd (add_allocation ''w'' example_broken)))) = None"
    by code_simp
  ultimately show ?thesis by simp
qed

text \<open>
  C3, amended. \<open>add_allocation\<close> copies first and records afterwards: when it returns a
  destination, every copy of the listing of the unit's source path has succeeded (the
  store is the result of the whole copy loop) and the unit is then appended to the
  worker's history; when it fails, by a failing copy or otherwise, the worker's history
  is what it was.
\<close>

theorem add_allocation_copies_before_recording:
  "(\<forall>err e'. add_allocation w e = (Inl err, e') \<longrightarrow> history e' w = history e w)
   \<and> (\<forall>p e'. add_allocation w e = (Inr p, e') \<longrightarrow>
         (\<exists>u. p = allocation_path e w u
              \<and> copy_keys (unit_path e u) p (s3_ls (s3 e) (unit_path e u)) (s3 e) = (Inr (), s3 e')
              \<and> history e' w = history e w @ [u]))"
proof -
  have a: "history e' w = history e w" if "add_allocation w e = (Inl err, e')" for err e'
    using that by (rule add_allocation_Inl_history)
  have b: "\<exists>u. p = allocation_path e w u
              \<and> copy_keys (unit_path e u) p (s3_ls (s3 e) (unit_path e u)) (s3 e) = (Inr (), s3 e')
              \<and> history e' w = history e w @ [u]"
    if r: "add_allocation w e = (Inr p, e')" for p e'
  proof -
    from add_allocation_Inr_s3 [OF r] obtain u where
      u: "p = allocation_path e w u"
      "copy_keys (unit_path e u) p (s3_ls (s3 e) (unit_path e u)) (s3 e) = (Inr (), s3 e')" by blast
    from add_allocation_Inr_history [OF r] obtain u' where
      u': "p = allocation_path e w u'" and h: "history e' w = history e w @ [u']" by blast
    from u(1) u' have "u' = u" by (simp add: allocation_path_def)
    with u h show ?thesis by blast
  qed
  from a b show ?thesis by blast
qed

theorem add_allocation_copies_before_recording_witness:
  "fst (add_allocation ''w'' example_broken) = Inl (StorageError ''b/x/brat_config/data/.unit_0/0.txt'')
   \<and> history (snd (add_allocation ''w'' example_broken)) ''w'' = history example_broken ''w''
   \<and> fst (add_allocation ''w'' example_registered) = Inr ''b/x/brat_config/data/.w/unit_0''
   \<and> (\<exists>u. history (snd (add_allocation ''w'' example_registered)) ''w''
            = history example_registered ''w'' @ [u])"
proof -
  have f1: "fst (add_allocation ''w'' example_broken)
      = Inl (StorageError ''b/x/brat_config/data/.unit_0/0.txt'')" by code_simp
  then have r1: "add_allocation ''w'' example_broken
      = (Inl (StorageError ''b/x/brat_config/data/.unit_0/0.txt''), snd (add_allocation ''w'' example_broken))"
    by (simp add: prod_eq_iff)
  have f2: "fst (add_allocation ''w'' example_registered) = Inr ''b/x/brat_config/data/.w/unit_0''"
    by code_simp
  then have r2: "add_allocation ''w'' example_registered
      = (Inr ''b/x/brat_config/data/.w/unit_0'', snd (add_allocation ''w'' example_registered))"
    by (simp add: prod_eq_iff)
  have "history (snd (add_allocation ''w'' example_broken)) ''w'' = history example_broken ''w''"
    using add_allocation_copies_before_recording [of "''w''" example_broken] r1 by blast
  moreover have "\<exists>u. history (snd (add_allocation ''w'' example_registered)) ''w''
            = history example_registered ''w'' @ [u]"
    using add_allocation_copies_before_recording [of "''w''" example_registered] r2 by blast
  ultimately show ?thesis using f1 f2 by simp
qed

text \<open>
  C6. For a non-empty item sequence of length \<open>N\<close> and a unit size \<open>S \<ge> 1\<close>,
  \<open>start\<close> records exactly \<open>ceil(N/S) = (N + S - 1) div S\<close> units, named
  \<open>unit_0\<close>, \<open>unit_1\<close>, ... in order; every unit but the last has exactly \<open>S\<close>
  members, and the last has \<open>N mod S\<close> members, or \<open>S\<close> when \<open>N mod S = 0\<close>.
\<close>

theorem partition_unit_count_and_sizes:
  assumes "postings smp \<noteq> []" "1 \<le> unit_size"
  shows "\<exists>us. units (md (snd (start smp ents min_annotations unit_size e))) = Some us
     \<and> length us = (length (postings smp) + nat unit_size - 1) div nat unit_size
     \<and> (\<forall>i. Suc i < length us \<longrightarrow> length (snd (us ! i)) = nat unit_size)
     \<and> length (snd (last us))
         = (if length (postings smp) mod nat unit_size = 0 then nat unit_size
            else length (postings smp) mod nat unit_size)
     \<and> map fst us = map unit_name_of [0..<length us]"
proof -
  let ?n = "nat unit_size"
  let ?bs = "chunk ?n (postings smp)"
  let ?us = "units_of 0 ?bs"
  have n: "0 < ?n" using assms(2) by simp
  have us: "units (md (snd (start smp ents min_annotations unit_size e))) = Some ?us"
    using assms by (simp add: start_units Batch_chunk)
  have ne: "?bs \<noteq> []" using n assms(1) by (simp add: chunk_eq_Nil)
  have len: "length ?us = (length (postings smp) + ?n - 1) div ?n"
    using n by (simp add: length_chunk)
  have full: "length (snd (?us ! i)) = ?n" if "Suc i < length ?us" for i
  proof -
    from that have i: "i < length (butlast ?bs)" by simp
    then have "butlast ?bs ! i \<in> set (butlast ?bs)" by (rule nth_mem)
    with i have "?bs ! i \<in> set (butlast ?bs)" by (simp add: nth_butlast)
    then have "length (?bs ! i) = ?n" using n by (intro chunk_butlast_lengths)
    with that show ?thesis by (simp add: units_of_nth)
  qed
  have lst: "length (snd (last ?us))
         = (if length (postings smp) mod ?n = 0 then ?n else length (postings smp) mod ?n)"
  proof -
    from ne have "?us \<noteq> []" by (simp flip: length_greater_0_conv)
    then have "last ?us = ?us ! (length ?bs - 1)" by (simp add: last_conv_nth)
    also have "\<dots> = (unit_name_of (0 + (length ?bs - 1)), members_of 0 (?bs ! (length ?bs - 1)))"
      using ne by (intro units_of_nth) simp
    finally have "length (snd (last ?us)) = length (last ?bs)"
      using ne by (simp add: last_conv_nth)
    then show ?thesis using chunk_last_length [OF n assms(1)] by simp
  qed
  have names: "map fst ?us = map unit_name_of [0..<length ?us]"
    using units_of_names [of 0 ?bs] by simp
  from us len full lst names show ?thesis by blast
qed

theorem partition_unit_count_and_sizes_witness:
  "postings example_sample \<noteq> [] \<and> (1::int) \<le> 2
   \<and> units (md (snd (start example_sample [(''k'', ''E'')] 2 2 (init ''x'' ''b''))))
       = Some [(''unit_0'', [(0, ''a''), (1, ''b'')]), (''unit_1'', [(0, ''c'')])]
   \<and> (\<exists>us. units (md (snd (start example_sample [(''k'', ''E'')] 2 2 (init ''x'' ''b'')))) = Some us
        \<and> length us = 2 \<and> length (snd (last us)) = 1)"
proof -
  have h1: "postings example_sample \<noteq> []" by (simp add: example_sample_def)
  have h2: "(1::int) \<le> 2" by simp
  have l: "length (postings example_sample) = 3" by (simp add: example_sample_def)
  have v: "units (md (snd (start example_sample [(''k'', ''E'')] 2 2 (init ''x'' ''b''))))
       = Some [(''unit_0'', [(0, ''a''), (1, ''b'')]), (''unit_1'', [(0, ''c'')])]" by code_simp
  from partition_unit_count_and_sizes [OF h1 h2, of "[(''k'', ''E'')]" 2 "init ''x'' ''b''"]
  have "\<exists>us. units (md (snd (start example_sample [(''k'', ''E'')] 2 2 (init ''x'' ''b'')))) = Some us
        \<and> length us = 2 \<and> length (snd (last us)) = 1"
    by (auto simp: l)
  with h1 v show ?thesis by simp
qed

text \<open>
  C7, as stated. The claim is that partitioning fails when the unit size is below 1 or
  the input is empty. With unit size 0 and an empty input \<open>start\<close> returns normally and
  records an empty unit mapping.
\<close>

theorem partition_rejects_counterexample:
  "fst (start \<lparr>base_path = ''s'', name = ''n'', postings = []\<rparr> [] 2 0 (init ''x'' ''b'')) = Inr ()
   \<and> units (md (snd (start \<lparr>base_path = ''s'', name = ''n'', postings = []\<rparr> [] 2 0 (init ''x'' ''b''))))
       = Some []"
  by (simp add: start_fields start_units units_of_def)

text \<open>
  C7, amended. \<open>start\<close> validates nothing and never fails with a configuration error:
  it returns normally, and on an empty input sequence, whatever the unit size, it
  creates no units: the unit mapping it records and saves is empty.
\<close>

theorem partition_never_rejects:
  "fst (start smp ents min_annotations unit_size e) = Inr ()
   \<and> (postings smp = [] \<longrightarrow>
        units (md (snd (start smp ents min_annotations unit_size e))) = Some []
        \<and> units (saved (metadata (snd (start smp ents min_annotations unit_size e)))) = Some [])"
proof -
  have "units (saved (metadata (snd (start smp ents min_annotations unit_size e))))
      = units (md (snd (start smp ents min_annotations unit_size e)))"
    by (simp add: start_fields(2) md_def)
  then show ?thesis by (simp add: start_fields(1) start_units units_of_def)
qed

theorem partition_never_rejects_witness:
  "postings \<lparr>base_path = ''s'', name = ''n'', postings = []\<rparr> = []
   \<and> fst (start \<lparr>base_path = ''s'', name = ''n'', postings = []\<rparr> [] 2 10 (init ''x'' ''b'')) = Inr ()
   \<and> units (saved (metadata (snd (start \<lparr>base_path = ''s'', name = ''n'', postings = []\<rparr> [] 2 10 (init ''x'' ''b'')))))
       = Some []"
  using partition_never_rejects [of "\<lparr>base_path = ''s'', name = ''n'', postings = []\<rparr>" "[]" 2 10 "init ''x'' ''b''"]
  by simp

text \<open>
  C8, as stated. The claim is that a second \<open>start\<close> on an experiment whose metadata
  already has units fails and leaves configuration and units unchanged. On the started
  example (two units, minimum 2) a second \<open>start\<close> with another sample returns
  normally, and afterwards there is one unit and the minimum is 1.
\<close>

theorem restart_counterexample:
  "units (md example_started) = Some [(''unit_0'', [(0, ''a''), (1, ''b'')]), (''unit_1'', [(0, ''c'')])]
   \<and> minimum_annotations_per_posting (md example_started) = Some 2
   \<and> fst (start example_other_sample [] 1 5 example_started) = Inr ()
   \<and> units (md (snd (start example_other_sample [] 1 5 example_started))) = Some [(''unit_0'', [(0, ''z'')])]
   \<and> minimum_annotations_per_posting (md (snd (start example_other_sample [] 1 5 example_started))) = Some 1"
proof -
  have "units (md example_started) = Some [(''unit_0'', [(0, ''a''), (1, ''b'')]), (''unit_1'', [(0, ''c'')])]"
    by code_simp
  moreover have "minimum_annotations_per_posting (md example_started) = Some 2" by code_simp
  moreover have "units (md (snd (start example_other_sample [] 1 5 example_started)))
      = Some [(''unit_0'', [(0, ''z'')])]" by code_simp
  ultimately show ?thesis by (simp add: start_fields)
qed

text \<open>
  C8, amended. \<open>start\<close> does not look at the present metadata and does not fail: on
  any state, started or not, it returns normally, the units are those a fresh experiment
  would get from the same arguments, the five configuration keys hold the new
  arguments, the allocations already recorded are kept, and the result is saved.
\<close>

theorem restart_overwrites:
  "fst (start smp ents min_annotations unit_size e) = Inr ()
   \<and> units (md (snd (start smp ents min_annotations unit_size e)))
       = units (md (snd (start smp ents min_annotations unit_size (init exp_name s3_path))))
   \<and> sample_base_path (md (snd (start smp ents min_annotations unit_size e))) = Some (base_path smp)
   \<and> sample_name (md (snd (start smp ents min_annotations unit_size e))) = Some (name smp)
   \<and> entities_with_shortcuts (md (snd (start smp ents min_annotations unit_size e))) = Some ents
   \<and> minimum_annotations_per_posting (md (snd (start smp ents min_annotations unit_size e))) = Some min_annotations
   \<and> max_postings_per_allocation (md (snd (start smp ents min_annotations unit_size e))) = Some unit_size
   \<and> allocations (md (snd (start smp ents min_annotations unit_size e))) = allocations (md e)
   \<and> saved (metadata (snd (start smp ents min_annotations unit_size e)))
       = storage (metadata (snd (start smp ents min_annotations unit_size e)))"
  by (simp add: start_fields start_units)

end
